theory Spec2Isabelle
  imports Complex_Main "HOL-Library.Sublist"
begin

section \<open>Python values used by \<open>utils/data_helpers.py\<close>\<close>

text \<open>
  A Python \<open>str\<close> is a sequence of Unicode code points; \<open>len\<close> counts code points and
  \<open>ord(c) == 0x202F\<close> inspects one, so a character is modelled by its code point.
\<close>

type_synonym pychar = nat
type_synonym pystr = "pychar list"

datatype py_error = IndexError | TypeError

text \<open>
  The subscript \<open>xs[i]\<close>. An index from \<open>-len(xs)\<close> up to \<open>-1\<close> is taken from the end
  of the list; an index outside \<open>-len(xs) .. len(xs) - 1\<close> raises IndexError.
\<close>

definition py_get :: "'a list \<Rightarrow> int \<Rightarrow> py_error + 'a" where
  "py_get xs i =
     (if 0 \<le> i \<and> i < int (length xs) then Inr (xs ! nat i)
      else if i < 0 \<and> - int (length xs) \<le> i then Inr (xs ! nat (int (length xs) + i))
      else Inl IndexError)"

section \<open>\<open>LoadSQuADQuestionAnsweringDataset.get_format_text_and_word_offset\<close>\<close>

definition is_whitespace :: "pychar \<Rightarrow> bool" where
  "is_whitespace c \<longleftrightarrow> c = 0x20 \<or> c = 0x09 \<or> c = 0x0D \<or> c = 0x0A \<or> c = 0x202F"

text \<open>
  The \<open>for c in text\<close> loop, with the three variables it updates passed along:
  \<open>doc_tokens\<close>, \<open>char_to_word_offset\<close> and \<open>prev_is_whitespace\<close>.
  \<open>doc_tokens[-1] += c\<close> raises IndexError on an empty \<open>doc_tokens\<close>.
\<close>

fun format_loop ::
  "pystr \<Rightarrow> pystr list \<Rightarrow> int list \<Rightarrow> bool \<Rightarrow> py_error + (pystr list \<times> int list)" where
  "format_loop [] doc_tokens char_to_word_offset prev_is_whitespace =
     Inr (doc_tokens, char_to_word_offset)"
| "format_loop (c # cs) doc_tokens char_to_word_offset prev_is_whitespace =
     (if is_whitespace c then
        format_loop cs doc_tokens
          (char_to_word_offset @ [int (length doc_tokens) - 1]) True
      else if prev_is_whitespace then
        (let doc_tokens' = doc_tokens @ [[c]]
         in format_loop cs doc_tokens'
              (char_to_word_offset @ [int (length doc_tokens') - 1]) False)
      else
        (case doc_tokens of
           [] \<Rightarrow> Inl IndexError
         | _ # _ \<Rightarrow>
            (let doc_tokens' = butlast doc_tokens @ [last doc_tokens @ [c]]
             in format_loop cs doc_tokens'
                  (char_to_word_offset @ [int (length doc_tokens') - 1]) False)))"

definition get_format_text_and_word_offset :: "pystr \<Rightarrow> py_error + (pystr list \<times> int list)" where
  "get_format_text_and_word_offset text = format_loop text [] [] True"

section \<open>\<open>LoadSQuADQuestionAnsweringDataset.improve_answer_span\<close>\<close>

text \<open>
  The inner loop \<open>for j in range(len(answer_tokens))\<close> at candidate \<open>i\<close>. It reads
  \<open>context_tokens[i + j]\<close> (which may raise), leaves at the first mismatch, and otherwise
  stores \<open>i + j\<close> in \<open>new_end\<close>. The result is the value of \<open>new_end\<close> after the loop.
\<close>

fun match_loop ::
  "'a list \<Rightarrow> 'a list \<Rightarrow> int \<Rightarrow> nat list \<Rightarrow> int option \<Rightarrow> py_error + int option" where
  "match_loop context_tokens answer_tokens i [] new_end = Inr new_end"
| "match_loop context_tokens answer_tokens i (j # js) new_end =
     (case py_get context_tokens (i + int j) of
        Inl e \<Rightarrow> Inl e
      | Inr c \<Rightarrow>
          if answer_tokens ! j \<noteq> c then Inr new_end
          else match_loop context_tokens answer_tokens i js (Some (i + int j)))"

text \<open>
  The outer loop \<open>for i in range(start_position, len(context_tokens))\<close>, over the list of
  the indices still to visit. \<open>new_end\<close> starts as \<open>None\<close> and is not reset between
  candidates; \<open>new_end - i\<close> on \<open>None\<close> is a TypeError.
\<close>

fun span_loop ::
  "'a list \<Rightarrow> 'a list \<Rightarrow> int \<Rightarrow> int \<Rightarrow> int list \<Rightarrow> int option \<Rightarrow> py_error + (int \<times> int)" where
  "span_loop context_tokens answer_tokens start_position end_position [] new_end =
     Inr (start_position, end_position)"
| "span_loop context_tokens answer_tokens start_position end_position (i # is) new_end =
     (case py_get context_tokens i of
        Inl e \<Rightarrow> Inl e
      | Inr c \<Rightarrow>
         (case py_get answer_tokens 0 of
            Inl e \<Rightarrow> Inl e
          | Inr a0 \<Rightarrow>
              if c \<noteq> a0 then
                span_loop context_tokens answer_tokens start_position end_position is new_end
              else
                (case match_loop context_tokens answer_tokens i
                        [0..<length answer_tokens] new_end of
                   Inl e \<Rightarrow> Inl e
                 | Inr None \<Rightarrow> Inl TypeError
                 | Inr (Some ne) \<Rightarrow>
                     if ne - i + 1 = int (length answer_tokens) then Inr (i, ne)
                     else span_loop context_tokens answer_tokens start_position end_position
                            is (Some ne))))"

definition improve_answer_span ::
  "'a list \<Rightarrow> 'a list \<Rightarrow> int \<Rightarrow> int \<Rightarrow> py_error + (int \<times> int)" where
  "improve_answer_span context_tokens answer_tokens start_position end_position =
     span_loop context_tokens answer_tokens start_position end_position
       [start_position..int (length context_tokens) - 1] None"

section \<open>Python built-ins on strings and lists\<close>

text \<open>
  The slice \<open>xs[lo:hi]\<close>: a negative bound is counted from the end, and both bounds are
  clipped to \<open>0 .. len(xs)\<close>; a slice never raises.
\<close>

definition slice_bound :: "int \<Rightarrow> int \<Rightarrow> int" where
  "slice_bound n i = (if i < 0 then max 0 (n + i) else min i n)"

definition py_slice :: "'a list \<Rightarrow> int \<Rightarrow> int \<Rightarrow> 'a list" where
  "py_slice xs lo hi =
     (let n = int (length xs); l = slice_bound n lo; h = slice_bound n hi
      in take (nat (h - l)) (drop (nat l) xs))"

text \<open>\<open>sep.join(xs)\<close>.\<close>

fun py_join :: "pystr \<Rightarrow> pystr list \<Rightarrow> pystr" where
  "py_join sep [] = []"
| "py_join sep [x] = x"
| "py_join sep (x # y # ys) = x @ sep @ py_join sep (y # ys)"

text \<open>
  \<open>str.isspace\<close> on one character: the code points that \<open>str.strip()\<close> and
  \<open>str.split()\<close> without arguments treat as whitespace.
\<close>

definition py_isspace :: "pychar \<Rightarrow> bool" where
  "py_isspace c \<longleftrightarrow>
     (0x09 \<le> c \<and> c \<le> 0x0D) \<or> (0x1C \<le> c \<and> c \<le> 0x20) \<or> c = 0x85 \<or> c = 0xA0 \<or>
     c = 0x1680 \<or> (0x2000 \<le> c \<and> c \<le> 0x200A) \<or> c = 0x2028 \<or> c = 0x2029 \<or>
     c = 0x202F \<or> c = 0x205F \<or> c = 0x3000"

definition py_strip :: "pystr \<Rightarrow> pystr" where
  "py_strip s = rev (dropWhile py_isspace (rev (dropWhile py_isspace s)))"

text \<open>\<open>s.split()\<close>: the maximal runs of non-whitespace characters; \<open>cur\<close> is the run being read.\<close>

fun split_loop :: "pystr \<Rightarrow> pystr \<Rightarrow> pystr list" where
  "split_loop [] cur = (if cur = [] then [] else [cur])"
| "split_loop (c # cs) cur =
     (if py_isspace c then (if cur = [] then split_loop cs [] else cur # split_loop cs [])
      else split_loop cs (cur @ [c]))"

definition py_split :: "pystr \<Rightarrow> pystr list" where
  "py_split s = split_loop s []"

text \<open>\<open>s.find(sub)\<close>: the lowest index at which \<open>sub\<close> starts in \<open>s\<close>, or -1.\<close>

fun find_from :: "pystr \<Rightarrow> pystr \<Rightarrow> nat \<Rightarrow> int" where
  "find_from [] sub k = (if sub = [] then int k else - 1)"
| "find_from (c # cs) sub k =
     (if take (length sub) (c # cs) = sub then int k else find_from cs sub (Suc k))"

definition py_find :: "pystr \<Rightarrow> pystr \<Rightarrow> int" where
  "py_find s sub = find_from s sub 0"

section \<open>\<open>LoadSQuADQuestionAnsweringDataset.preprocessing\<close>\<close>

text \<open>
  The parsed JSON document: \<open>raw_data['data']\<close> is a list of articles, each with
  \<open>'paragraphs'\<close>, each paragraph with \<open>'context'\<close> and \<open>'qas'\<close>, each of those with
  \<open>'question'\<close>, \<open>'id'\<close> and \<open>'answers'\<close> (entries with \<open>'answer_start'\<close> and \<open>'text'\<close>).
\<close>

record answer =
  ans_start :: int
  ans_text :: pystr

record qa =
  qa_question :: pystr
  qa_id :: pystr
  qa_answers :: "answer list"

record squad_paragraph =
  par_context :: pystr
  par_qas :: "qa list"

record article =
  art_paragraphs :: "squad_paragraph list"

text \<open>
  One entry of \<open>examples\<close>: the list \<open>[qas_id, question_text, orig_answer_text,
  " ".join(context_tokens), start_position, end_position]\<close>; the answer and the positions
  are \<open>None\<close> outside training.
\<close>

record example =
  ex_qas_id :: pystr
  ex_question_text :: pystr
  ex_orig_answer_text :: "pystr option"
  ex_context :: pystr
  ex_start_position :: "int option"
  ex_end_position :: "int option"

text \<open>
  What one pass through the body of the innermost loop does: it appends an example, or it
  calls \<open>logging.warning\<close> with \<open>(actual_text, cleaned_answer_text)\<close> and goes on with
  \<open>continue\<close>, or it raises.
\<close>

datatype qa_outcome = Appended example | Skipped pystr pystr

definition process_qa ::
  "pystr list \<Rightarrow> int list \<Rightarrow> bool \<Rightarrow> qa \<Rightarrow> py_error + qa_outcome" where
  "process_qa context_tokens word_offset is_training q =
     (if is_training then
        (case py_get (qa_answers q) 0 of
           Inl e \<Rightarrow> Inl e
         | Inr a \<Rightarrow>
            (let answer_offset = ans_start a;
                 orig_answer_text = ans_text a;
                 answer_length = int (length orig_answer_text)
             in case py_get word_offset answer_offset of
                  Inl e \<Rightarrow> Inl e
                | Inr start_position \<Rightarrow>
                   (case py_get word_offset (answer_offset + answer_length - 1) of
                      Inl e \<Rightarrow> Inl e
                    | Inr end_position \<Rightarrow>
                       (let actual_text =
                              py_join [0x20]
                                (py_slice context_tokens start_position (end_position + 1));
                            cleaned_answer_text =
                              py_join [0x20] (py_split (py_strip orig_answer_text))
                        in if py_find actual_text cleaned_answer_text = - 1 then
                             Inr (Skipped actual_text cleaned_answer_text)
                           else
                             Inr (Appended
                               \<lparr>ex_qas_id = qa_id q, ex_question_text = qa_question q,
                                ex_orig_answer_text = Some orig_answer_text,
                                ex_context = py_join [0x20] context_tokens,
                                ex_start_position = Some start_position,
                                ex_end_position = Some end_position\<rparr>)))))
      else
        Inr (Appended
          \<lparr>ex_qas_id = qa_id q, ex_question_text = qa_question q,
           ex_orig_answer_text = None,
           ex_context = py_join [0x20] context_tokens,
           ex_start_position = None, ex_end_position = None\<rparr>))"

text \<open>
  The three nested loops. The state they pass along is \<open>examples\<close> together with the
  warnings logged so far.
\<close>

type_synonym prep_state = "example list \<times> (pystr \<times> pystr) list"

fun qas_loop ::
  "pystr list \<Rightarrow> int list \<Rightarrow> bool \<Rightarrow> qa list \<Rightarrow> prep_state \<Rightarrow> py_error + prep_state" where
  "qas_loop context_tokens word_offset is_training [] st = Inr st"
| "qas_loop context_tokens word_offset is_training (q # qs) st =
     (case process_qa context_tokens word_offset is_training q of
        Inl e \<Rightarrow> Inl e
      | Inr (Skipped actual_text cleaned_answer_text) \<Rightarrow>
          qas_loop context_tokens word_offset is_training qs
            (fst st, snd st @ [(actual_text, cleaned_answer_text)])
      | Inr (Appended ex) \<Rightarrow>
          qas_loop context_tokens word_offset is_training qs (fst st @ [ex], snd st))"

fun paragraphs_loop :: "bool \<Rightarrow> squad_paragraph list \<Rightarrow> prep_state \<Rightarrow> py_error + prep_state" where
  "paragraphs_loop is_training [] st = Inr st"
| "paragraphs_loop is_training (p # ps) st =
     (case get_format_text_and_word_offset (par_context p) of
        Inl e \<Rightarrow> Inl e
      | Inr (context_tokens, word_offset) \<Rightarrow>
         (case qas_loop context_tokens word_offset is_training (par_qas p) st of
            Inl e \<Rightarrow> Inl e
          | Inr st' \<Rightarrow> paragraphs_loop is_training ps st'))"

fun data_loop :: "bool \<Rightarrow> article list \<Rightarrow> prep_state \<Rightarrow> py_error + prep_state" where
  "data_loop is_training [] st = Inr st"
| "data_loop is_training (a # as) st =
     (case paragraphs_loop is_training (art_paragraphs a) st of
        Inl e \<Rightarrow> Inl e
      | Inr st' \<Rightarrow> data_loop is_training as st')"

definition preprocessing :: "article list \<Rightarrow> bool \<Rightarrow> py_error + prep_state" where
  "preprocessing data is_training = data_loop is_training data ([], [])"

text \<open>The value \<open>preprocessing\<close> returns: \<open>examples\<close>, or the exception raised.\<close>

definition returned :: "py_error + prep_state \<Rightarrow> py_error + example list" where
  "returned r = (case r of Inl e \<Rightarrow> Inl e | Inr st \<Rightarrow> Inr (fst st))"

section \<open>\<open>data_process_without_sliding\<close> and \<open>data_process_with_sliding\<close>\<close>

text \<open>
  The attributes of the loader that the two functions read. The tokenizer and the
  vocabulary lookup \<open>self.vocab[token]\<close> are injected and total; \<open>max_sen_len\<close> is the
  integer setting (the window arithmetic needs a number).
\<close>

record config =
  tokenizer :: "pystr \<Rightarrow> pystr list"
  vocab :: "pystr \<Rightarrow> int"
  CLS_IDX :: int
  SEP_IDX :: int
  max_sen_len :: int
  max_position_embeddings :: int
  doc_stride :: int
  max_query_length :: int

text \<open>
  One entry of \<open>all_data\<close>: the list
  \<open>[input_ids, seg, start_position, end_position, answer_text, example[0]]\<close>.
\<close>

record encoded_record =
  rec_input_ids :: "int list"
  rec_seg :: "int list"
  rec_start_position :: int
  rec_end_position :: int
  rec_answer_text :: "pystr option"
  rec_qas_id :: pystr

text \<open>
  Both functions start the same way: the question is tokenized and cut to
  \<open>max_query_length\<close> tokens by \<open>question_tokens[:self.max_query_length]\<close>, and its ids are
  put between \<open>[CLS]\<close> and \<open>[SEP]\<close>.
\<close>

definition question_tokens_of :: "config \<Rightarrow> example \<Rightarrow> pystr list" where
  "question_tokens_of cfg ex =
     (let question_tokens = tokenizer cfg (ex_question_text ex)
      in if int (length question_tokens) > max_query_length cfg
         then py_slice question_tokens 0 (max_query_length cfg)
         else question_tokens)"

definition question_ids_of :: "config \<Rightarrow> example \<Rightarrow> int list" where
  "question_ids_of cfg ex =
     [CLS_IDX cfg] @ map (vocab cfg) (question_tokens_of cfg ex) @ [SEP_IDX cfg]"

definition context_ids_of :: "config \<Rightarrow> example \<Rightarrow> int list" where
  "context_ids_of cfg ex = map (vocab cfg) (tokenizer cfg (ex_context ex))"

text \<open>
  The answer span both functions work with: \<open>(-1, -1)\<close> outside training; in training
  the positions of the example, realigned by \<open>improve_answer_span\<close> on the tokenized
  context and answer. An example without answer or positions cannot be tokenized or
  ranged over (TypeError); \<open>preprocessing\<close> in training mode fills all three.
\<close>

definition aligned_span :: "config \<Rightarrow> bool \<Rightarrow> example \<Rightarrow> py_error + (int \<times> int)" where
  "aligned_span cfg is_training ex =
     (if is_training then
        (case (ex_orig_answer_text ex, ex_start_position ex, ex_end_position ex) of
           (Some answer_text, Some start_position, Some end_position) \<Rightarrow>
             improve_answer_span (tokenizer cfg (ex_context ex)) (tokenizer cfg answer_text)
               start_position end_position
         | _ \<Rightarrow> Inl TypeError)
      else Inr (- 1, - 1))"

text \<open>\<open>[0] * len(question_ids) + [1] * (len(input_ids) - len(question_ids))\<close>.\<close>

definition segment_ids :: "int list \<Rightarrow> int list \<Rightarrow> int list" where
  "segment_ids question_ids input_ids =
     replicate (length question_ids) 0 @
     replicate (nat (int (length input_ids) - int (length question_ids))) 1"

subsection \<open>Without sliding\<close>

text \<open>The body of the loop over \<open>examples\<close>: the record appended for one example.\<close>

definition no_sliding_record :: "config \<Rightarrow> bool \<Rightarrow> example \<Rightarrow> py_error + encoded_record" where
  "no_sliding_record cfg is_training ex =
     (let question_ids = question_ids_of cfg ex;
          input_ids = question_ids @ context_ids_of cfg ex;
          input_ids = (if int (length input_ids) > max_position_embeddings cfg - 1
                       then py_slice input_ids 0 (max_position_embeddings cfg - 1)
                       else input_ids);
          input_ids = input_ids @ [SEP_IDX cfg]
      in case aligned_span cfg is_training ex of
           Inl e \<Rightarrow> Inl e
         | Inr (start_position, end_position) \<Rightarrow>
             Inr \<lparr>rec_input_ids = input_ids,
                  rec_seg = segment_ids question_ids input_ids,
                  rec_start_position =
                    (if is_training then start_position + int (length question_ids)
                     else start_position),
                  rec_end_position =
                    (if is_training then end_position + int (length question_ids)
                     else end_position),
                  rec_answer_text = (if is_training then ex_orig_answer_text ex else None),
                  rec_qas_id = ex_qas_id ex\<rparr>)"

fun no_sliding_loop ::
  "config \<Rightarrow> bool \<Rightarrow> example list \<Rightarrow> encoded_record list \<times> int \<Rightarrow>
     py_error + (encoded_record list \<times> int)" where
  "no_sliding_loop cfg is_training [] st = Inr st"
| "no_sliding_loop cfg is_training (ex # exs) st =
     (case no_sliding_record cfg is_training ex of
        Inl e \<Rightarrow> Inl e
      | Inr r \<Rightarrow>
          no_sliding_loop cfg is_training exs
            (fst st @ [r], max (snd st) (int (length (rec_input_ids r)))))"

text \<open>The function as it runs on a cache miss; the result is \<open>(all_data, max_len)\<close>.\<close>

definition data_process_without_sliding ::
  "config \<Rightarrow> article list \<Rightarrow> bool \<Rightarrow> py_error + (encoded_record list \<times> int)" where
  "data_process_without_sliding cfg data is_training =
     (case preprocessing data is_training of
        Inl e \<Rightarrow> Inl e
      | Inr st \<Rightarrow> no_sliding_loop cfg is_training (fst st) ([], 0))"

subsection \<open>With sliding\<close>

text \<open>
  The record built in one pass of the \<open>while True\<close> loop, for the window
  \<open>context_ids[s_idx:e_idx]\<close>. In training the span is shifted into the window when
  \<open>start_position >= s_idx and end_position <= e_idx\<close>, and is \<open>(0, 0)\<close> otherwise.
\<close>

definition window_record ::
  "config \<Rightarrow> bool \<Rightarrow> int list \<Rightarrow> int list \<Rightarrow> int \<Rightarrow> int \<Rightarrow> pystr option \<Rightarrow> pystr \<Rightarrow>
     int \<Rightarrow> int \<Rightarrow> encoded_record" where
  "window_record cfg is_training question_ids context_ids start_position end_position
       answer_text qas_id s_idx e_idx =
     (let tmp_context_ids = py_slice context_ids s_idx e_idx;
          input_ids = question_ids @ tmp_context_ids @ [SEP_IDX cfg];
          inside = (start_position \<ge> s_idx \<and> end_position \<le> e_idx);
          new_start_position = start_position - s_idx;
          new_end_position = new_start_position + (end_position - start_position)
      in \<lparr>rec_input_ids = input_ids,
          rec_seg = segment_ids question_ids input_ids,
          rec_start_position =
            (if is_training
             then (if inside then new_start_position + int (length question_ids) else 0)
             else start_position),
          rec_end_position =
            (if is_training
             then (if inside then new_end_position + int (length question_ids) else 0)
             else end_position),
          rec_answer_text = answer_text,
          rec_qas_id = qas_id\<rparr>)"

text \<open>
  The \<open>while True\<close> loop. It appends the record of the current window, leaves when
  \<open>e_idx >= context_ids_len\<close>, and otherwise moves both bounds by \<open>doc_stride\<close>. Nothing in
  it bounds the number of passes, so not returning is the value \<open>None\<close>.
\<close>

partial_function (option) sliding_loop ::
  "config \<Rightarrow> bool \<Rightarrow> int list \<Rightarrow> int list \<Rightarrow> int \<Rightarrow> int \<Rightarrow> pystr option \<Rightarrow> pystr \<Rightarrow>
     int \<Rightarrow> int \<Rightarrow> encoded_record list \<Rightarrow> encoded_record list option" where
  "sliding_loop cfg is_training question_ids context_ids start_position end_position
       answer_text qas_id s_idx e_idx all_data =
     (if e_idx \<ge> int (length context_ids) then
        Some (all_data @
          [window_record cfg is_training question_ids context_ids start_position end_position
             answer_text qas_id s_idx e_idx])
      else
        sliding_loop cfg is_training question_ids context_ids start_position end_position
          answer_text qas_id (s_idx + doc_stride cfg) (e_idx + doc_stride cfg)
          (all_data @
            [window_record cfg is_training question_ids context_ids start_position
               end_position answer_text qas_id s_idx e_idx]))"

text \<open>
  The body of the loop over \<open>examples\<close>: \<open>all_data\<close> after one example, an exception,
  or \<open>None\<close> when the window loop does not end.
\<close>

definition sliding_example ::
  "config \<Rightarrow> bool \<Rightarrow> example \<Rightarrow> encoded_record list \<Rightarrow>
     (py_error + encoded_record list) option" where
  "sliding_example cfg is_training ex all_data =
     (let question_ids = question_ids_of cfg ex;
          context_ids = context_ids_of cfg ex
      in case aligned_span cfg is_training ex of
           Inl e \<Rightarrow> Some (Inl e)
         | Inr (start_position, end_position) \<Rightarrow>
            (let answer_text = (if is_training then ex_orig_answer_text ex else None);
                 rest_len = max_sen_len cfg - int (length question_ids) - 1;
                 context_ids_len = int (length context_ids)
             in if context_ids_len > rest_len then
                  map_option Inr
                    (sliding_loop cfg is_training question_ids context_ids start_position
                       end_position answer_text (ex_qas_id ex) 0 rest_len all_data)
                else
                  (let input_ids = question_ids @ context_ids @ [SEP_IDX cfg]
                   in Some (Inr (all_data @
                        [\<lparr>rec_input_ids = input_ids,
                          rec_seg = segment_ids question_ids input_ids,
                          rec_start_position =
                            (if is_training then start_position + int (length question_ids)
                             else start_position),
                          rec_end_position =
                            (if is_training then end_position + int (length question_ids)
                             else end_position),
                          rec_answer_text = answer_text,
                          rec_qas_id = ex_qas_id ex\<rparr>])))))"

fun sliding_examples_loop ::
  "config \<Rightarrow> bool \<Rightarrow> example list \<Rightarrow> encoded_record list \<Rightarrow>
     (py_error + encoded_record list) option" where
  "sliding_examples_loop cfg is_training [] all_data = Some (Inr all_data)"
| "sliding_examples_loop cfg is_training (ex # exs) all_data =
     (case sliding_example cfg is_training ex all_data of
        None \<Rightarrow> None
      | Some (Inl e) \<Rightarrow> Some (Inl e)
      | Some (Inr all_data') \<Rightarrow> sliding_examples_loop cfg is_training exs all_data')"

text \<open>The function as it runs on a cache miss; the result is \<open>(all_data, self.max_sen_len)\<close>.\<close>

definition data_process_with_sliding ::
  "config \<Rightarrow> article list \<Rightarrow> bool \<Rightarrow> (py_error + (encoded_record list \<times> int)) option" where
  "data_process_with_sliding cfg data is_training =
     (case preprocessing data is_training of
        Inl e \<Rightarrow> Some (Inl e)
      | Inr st \<Rightarrow>
         (case sliding_examples_loop cfg is_training (fst st) [] of
            None \<Rightarrow> None
          | Some (Inl e) \<Rightarrow> Some (Inl e)
          | Some (Inr all_data) \<Rightarrow> Some (Inr (all_data, max_sen_len cfg))))"

section \<open>The offset map\<close>

lemma format_loop_total:
  assumes "prev \<or> dt \<noteq> []"
    and "sorted offs"
    and "\<forall>v\<in>set offs. v \<le> int (length dt) - 1"
  shows "\<exists>toks res. format_loop cs dt offs prev = Inr (toks, res) \<and>
           length res = length offs + length cs \<and> sorted res \<and>
           take (length offs) res = offs"
  using assms
proof (induction cs arbitrary: dt offs prev)
  case Nil
  then show ?case by simp
next
  case (Cons c cs)
  show ?case
  proof (cases "is_whitespace c")
    case True
    let ?offs = "offs @ [int (length dt) - 1]"
    have "sorted ?offs" using Cons.prems by (simp add: sorted_append)
    moreover have "\<forall>v\<in>set ?offs. v \<le> int (length dt) - 1" using Cons.prems by simp
    ultimately obtain toks res where r: "format_loop cs dt ?offs True = Inr (toks, res)"
      "length res = length ?offs + length cs" "sorted res" "take (length ?offs) res = ?offs"
      using Cons.IH [of True dt ?offs] by blast
    from r(4) have "take (length offs) (take (length ?offs) res) = offs" by simp
    then have "take (length offs) res = offs" by (simp add: min_def)
    with r True show ?thesis by simp
  next
    case ws: False
    show ?thesis
    proof (cases prev)
      case True
      let ?dt = "dt @ [[c]]"
      let ?offs = "offs @ [int (length ?dt) - 1]"
      have "sorted ?offs" using Cons.prems by (fastforce simp: sorted_append)
      moreover have "\<forall>v\<in>set ?offs. v \<le> int (length ?dt) - 1" using Cons.prems by fastforce
      ultimately obtain toks res where r: "format_loop cs ?dt ?offs False = Inr (toks, res)"
        "length res = length ?offs + length cs" "sorted res" "take (length ?offs) res = ?offs"
        using Cons.IH [of False ?dt ?offs] by blast
      from r(4) have "take (length offs) (take (length ?offs) res) = offs" by simp
      then have "take (length offs) res = offs" by (simp add: min_def)
      with r ws True show ?thesis by (simp add: Let_def)
    next
      case False
      with Cons.prems obtain t ts where dt: "dt = t # ts" by (cases dt) auto
      let ?dt = "butlast dt @ [last dt @ [c]]"
      let ?offs = "offs @ [int (length ?dt) - 1]"
      have len: "length ?dt = length dt" using dt by simp
      have "sorted ?offs" using Cons.prems len by (simp add: sorted_append)
      moreover have "\<forall>v\<in>set ?offs. v \<le> int (length ?dt) - 1" using Cons.prems len by simp
      moreover have "False \<or> ?dt \<noteq> []" by simp
      ultimately obtain toks res where r: "format_loop cs ?dt ?offs False = Inr (toks, res)"
        "length res = length ?offs + length cs" "sorted res" "take (length ?offs) res = ?offs"
        using Cons.IH [of False ?dt ?offs] by blast
      from r(4) have "take (length offs) (take (length ?offs) res) = offs" by simp
      then have "take (length offs) res = offs" by (simp add: min_def)
      with r ws False dt show ?thesis by (simp add: Let_def)
    qed
  qed
qed

text \<open>
  C8. For every input text, \<open>get_format_text_and_word_offset\<close> returns (it never raises),
  the returned \<open>char_to_word_offset\<close> has one entry per character of the text, and its
  entries are non-decreasing from one character index to the next.
\<close>

theorem char_to_word_offset_length_sorted:
  "\<exists>doc_tokens char_to_word_offset.
     get_format_text_and_word_offset text = Inr (doc_tokens, char_to_word_offset) \<and>
     length char_to_word_offset = length text \<and>
     sorted char_to_word_offset"
proof -
  obtain toks res where "format_loop text [] [] True = Inr (toks, res)"
    "length res = length ([] :: int list) + length text" "sorted res"
    using format_loop_total [of True "[]" "[]" "text"] by auto
  then show ?thesis by (simp add: get_format_text_and_word_offset_def)
qed

text \<open>
  C9 as stated fails: on a text that starts with whitespace the first entry is
  \<open>len(doc_tokens) - 1 = -1\<close>, since no token exists yet. Here the text is \<open>" a"\<close>.
\<close>

theorem char_to_word_offset_first_counterexample:
  "[0x20, 0x61] \<noteq> ([] :: pystr) \<and>
   get_format_text_and_word_offset [0x20, 0x61] = Inr ([[0x61]], [- 1, 0]) \<and>
   hd [- 1, 0 :: int] \<noteq> 0"
  by (simp add: get_format_text_and_word_offset_def is_whitespace_def)

text \<open>
  C9, amended. For every non-empty text the function returns, and the first entry of
  \<open>char_to_word_offset\<close> is 0 when the first character is not whitespace and -1 when
  it is.
\<close>

theorem char_to_word_offset_first:
  assumes "text \<noteq> []"
  shows "\<exists>doc_tokens char_to_word_offset.
     get_format_text_and_word_offset text = Inr (doc_tokens, char_to_word_offset) \<and>
     char_to_word_offset \<noteq> [] \<and>
     hd char_to_word_offset = (if is_whitespace (hd text) then - 1 else 0)"
proof -
  from assms obtain c cs where t: "text = c # cs" by (cases "text") auto
  define v :: int where "v = (if is_whitespace c then - 1 else 0)"
  define dt :: "pystr list" where "dt = (if is_whitespace c then [] else [[c]])"
  have step: "format_loop (c # cs) [] [] True = format_loop cs dt [v] (is_whitespace c)"
    by (simp add: v_def dt_def)
  have "is_whitespace c \<or> dt \<noteq> []" by (simp add: dt_def)
  moreover have "sorted [v]" by simp
  moreover have "\<forall>x\<in>set [v]. x \<le> int (length dt) - 1" by (simp add: v_def dt_def)
  ultimately obtain toks res where r: "format_loop cs dt [v] (is_whitespace c) = Inr (toks, res)"
    "take (length [v]) res = [v]"
    using format_loop_total [of "is_whitespace c" dt "[v]" cs] by blast
  from r(2) have "res \<noteq> [] \<and> hd res = v" by (cases res) auto
  with r(1) step t show ?thesis
    by (simp add: get_format_text_and_word_offset_def v_def)
qed

theorem char_to_word_offset_first_witness:
  "\<exists>doc_tokens char_to_word_offset.
     get_format_text_and_word_offset [0x61, 0x20, 0x62] = Inr (doc_tokens, char_to_word_offset) \<and>
     char_to_word_offset \<noteq> [] \<and> hd char_to_word_offset = 0"
  using char_to_word_offset_first [of "[0x61, 0x20, 0x62]"]
  by (simp add: is_whitespace_def)

section \<open>The span aligner\<close>

lemma py_get_nat: "k < length xs \<Longrightarrow> py_get xs (int k) = Inr (xs ! k)"
  by (simp add: py_get_def)

lemma match_loop_all:
  assumes "\<forall>j. m \<le> j \<and> j < n \<longrightarrow> k + j < length ctx \<and> ans ! j = ctx ! (k + j)"
    and "m < n"
  shows "match_loop ctx ans (int k) [m..<n] ne = Inr (Some (int k + int n - 1))"
  using assms
proof (induction "n - m" arbitrary: m ne)
  case 0
  then show ?case by simp
next
  case (Suc d)
  have here: "k + m < length ctx" "ans ! m = ctx ! (k + m)" using Suc.prems by auto
  have get: "py_get ctx (int k + int m) = Inr (ctx ! (k + m))"
    using py_get_nat [of "k + m" ctx] here by simp
  show ?case
  proof (cases "Suc m < n")
    case True
    have "match_loop ctx ans (int k) [Suc m..<n] (Some (int k + int m)) = Inr (Some (int k + int n - 1))"
      using Suc.hyps(1) [of "Suc m"] Suc.hyps(2) Suc.prems True by auto
    then show ?thesis using Suc.prems(2) here get by (simp add: upt_conv_Cons)
  next
    case False
    then have "n = Suc m" using Suc.prems(2) by simp
    then show ?thesis using here get by (simp add: upt_conv_Cons)
  qed
qed

lemma match_loop_mismatch:
  assumes "\<forall>j. m \<le> j \<and> j < j0 \<longrightarrow> ans ! j = ctx ! (k + j)"
    and "m \<le> j0" and "j0 < n" and "k + j0 < length ctx" and "ans ! j0 \<noteq> ctx ! (k + j0)"
  shows "match_loop ctx ans (int k) [m..<n] ne =
           Inr (if j0 = m then ne else Some (int k + int j0 - 1))"
  using assms
proof (induction "j0 - m" arbitrary: m ne)
  case 0
  then have "m = j0" by simp
  then show ?case using "0.prems" py_get_nat [of "k + j0" ctx]
    by (simp add: upt_conv_Cons)
next
  case (Suc d)
  then have lt: "m < j0" by simp
  then have here: "k + m < length ctx" "ans ! m = ctx ! (k + m)" using Suc.prems by auto
  have get: "py_get ctx (int k + int m) = Inr (ctx ! (k + m))"
    using py_get_nat [of "k + m" ctx] here by simp
  have "match_loop ctx ans (int k) [Suc m..<n] (Some (int k + int m)) =
          Inr (if j0 = Suc m then Some (int k + int m) else Some (int k + int j0 - 1))"
    using Suc.hyps(1) [of "Suc m"] Suc.hyps(2) Suc.prems lt by auto
  then show ?case using lt Suc.prems(3) here get by (auto simp add: upt_conv_Cons)
qed


lemma first_mismatch:
  assumes "take n (drop a ctx) \<noteq> ans" and "length ans = n" and "a + n \<le> length ctx"
  obtains j0 where "j0 < n" and "ans ! j0 \<noteq> ctx ! (a + j0)"
    and "\<forall>j<j0. ans ! j = ctx ! (a + j)"
proof -
  have len: "length (take n (drop a ctx)) = length ans" using assms by simp
  have "\<exists>j<n. ans ! j \<noteq> ctx ! (a + j)"
  proof (rule ccontr)
    assume "\<not> (\<exists>j<n. ans ! j \<noteq> ctx ! (a + j))"
    then have "\<forall>j<n. take n (drop a ctx) ! j = ans ! j" using assms by simp
    with len have "take n (drop a ctx) = ans" by (intro nth_equalityI) auto
    with assms(1) show False by simp
  qed
  then obtain j where j: "j < n \<and> ans ! j \<noteq> ctx ! (a + j)" by blast
  define j0 where "j0 = (LEAST j. j < n \<and> ans ! j \<noteq> ctx ! (a + j))"
  have "j0 < n \<and> ans ! j0 \<noteq> ctx ! (a + j0)"
    unfolding j0_def using j by (rule LeastI)
  moreover have "\<forall>j<j0. ans ! j = ctx ! (a + j)"
  proof (intro allI impI)
    fix i assume "i < j0"
    then have "\<not> (i < n \<and> ans ! i \<noteq> ctx ! (a + i))"
      unfolding j0_def by (rule not_less_Least)
    moreover have "i < n" using \<open>i < j0\<close> \<open>j0 < n \<and> ans ! j0 \<noteq> ctx ! (a + j0)\<close> by simp
    ultimately show "ans ! i = ctx ! (a + i)" by simp
  qed
  ultimately show thesis using that by blast
qed

lemma span_loop_first_match:
  assumes "ans \<noteq> []" and "a \<le> i" and "i + length ans \<le> length ctx"
    and "take (length ans) (drop i ctx) = ans"
    and "\<forall>k. a \<le> k \<and> k < i \<longrightarrow> take (length ans) (drop k ctx) \<noteq> ans"
  shows "span_loop ctx ans sp ep [int a..int (length ctx) - 1] ne =
           Inr (int i, int i + int (length ans) - 1)"
  using assms(2,5)
proof (induction "i - a" arbitrary: a ne)
  case 0
  then have ai: "a = i" by simp
  define n where "n = length ans"
  have npos: "0 < n" using assms(1) n_def by simp
  have ilt: "i < length ctx" using assms(1,3) by (cases ans) auto
  have all: "\<forall>j. 0 \<le> j \<and> j < n \<longrightarrow> i + j < length ctx \<and> ans ! j = ctx ! (i + j)"
  proof (intro allI impI)
    fix j assume j: "0 \<le> j \<and> j < n"
    have "ans ! j = take n (drop i ctx) ! j" using assms(4) n_def by simp
    also have "\<dots> = ctx ! (i + j)" using j assms(3) n_def by simp
    finally show "i + j < length ctx \<and> ans ! j = ctx ! (i + j)" using j assms(3) n_def by simp
  qed
  have m: "match_loop ctx ans (int i) [0..<n] ne = Inr (Some (int i + int n - 1))"
    using match_loop_all [OF all npos] .
  have hd: "ctx ! i = ans ! 0" using all npos by force
  have up: "[int i..int (length ctx) - 1] = int i # [int i + 1..int (length ctx) - 1]"
    using ilt by (simp add: upto_rec1)
  have g0: "py_get ans 0 = Inr (ans ! 0)" using py_get_nat [of 0 ans] npos n_def by simp
  show ?case unfolding ai up
    using m hd g0 py_get_nat [OF ilt] n_def by simp
next
  case (Suc d)
  define n where "n = length ans"
  have npos: "0 < n" using assms(1) n_def by simp
  have lt: "a < i" using Suc.hyps(2) by simp
  have alt: "a < length ctx" using lt assms(3) by simp
  have bound: "a + n \<le> length ctx" using lt assms(3) n_def by simp
  have up: "[int a..int (length ctx) - 1] = int a # [int (Suc a)..int (length ctx) - 1]"
    using alt by (simp add: upto_rec1 add.commute)
  have g0: "py_get ans 0 = Inr (ans ! 0)" using py_get_nat [of 0 ans] npos n_def by simp
  have rest: "span_loop ctx ans sp ep [int (Suc a)..int (length ctx) - 1] ne' =
           Inr (int i, int i + int (length ans) - 1)" for ne'
    using Suc.hyps(1) [of "Suc a"] Suc.hyps(2) Suc.prems lt by auto
  show ?case
  proof (cases "ctx ! a = ans ! 0")
    case False
    then show ?thesis unfolding up using g0 py_get_nat [OF alt] rest by simp
  next
    case True
    have "take n (drop a ctx) \<noteq> ans" using Suc.prems lt n_def by simp
    then obtain j0 where j0: "j0 < n" "ans ! j0 \<noteq> ctx ! (a + j0)"
      "\<forall>j<j0. ans ! j = ctx ! (a + j)"
      using first_mismatch [of n a ctx ans] n_def bound by blast
    have j0pos: "0 < j0" using j0(2) True by (cases j0) auto
    have "match_loop ctx ans (int a) [0..<n] ne =
            Inr (if j0 = 0 then ne else Some (int a + int j0 - 1))"
      using match_loop_mismatch [of 0 j0 ans ctx a n ne] j0 bound by simp
    then have m: "match_loop ctx ans (int a) [0..<n] ne = Inr (Some (int a + int j0 - 1))"
      using j0pos by simp
    show ?thesis unfolding up
      using m True g0 py_get_nat [OF alt] rest j0(1) n_def by simp
  qed
qed

lemma span_loop_no_candidate:
  assumes "ans \<noteq> []"
    and "\<forall>i\<in>set is. \<exists>c. py_get ctx i = Inr c \<and> c \<noteq> ans ! 0"
  shows "span_loop ctx ans sp ep is ne = Inr (sp, ep)"
  using assms(2)
proof (induction "is")
  case Nil
  then show ?case by simp
next
  case (Cons i "is")
  have g0: "py_get ans 0 = Inr (ans ! 0)" using py_get_nat [of 0 ans] assms(1) by simp
  from Cons.prems obtain c where "py_get ctx i = Inr c" "c \<noteq> ans ! 0" by auto
  then show ?case using Cons g0 by simp
qed


text \<open>
  C4 as stated fails for a negative \<open>start_position\<close>, which \<open>preprocessing\<close> does
  produce: for the context \<open>" a"\<close> and the answer \<open>" a"\<close> at offset 0 it keeps the
  example with the positions \<open>(-1, 0)\<close>, since \<open>word_offset[0] = -1\<close>. With the
  tokens \<open>["a"]\<close> of both texts the answer occurs at index 0, the leftmost index at or
  after -1, but the loop starts at \<open>i = -1\<close>, reads \<open>context_tokens[-1]\<close> from the end
  of the list and returns \<open>(-1, -1)\<close>, not \<open>(0, 0)\<close>.
\<close>

theorem improve_answer_span_negative_start_counterexample:
  "preprocessing
     [\<lparr>art_paragraphs =
        [\<lparr>par_context = [0x20, 0x61],
          par_qas =
            [\<lparr>qa_question = [0x71], qa_id = [0x31],
               qa_answers = [\<lparr>ans_start = 0, ans_text = [0x20, 0x61]\<rparr>]\<rparr>]\<rparr>]\<rparr>]
     True =
     Inr ([\<lparr>ex_qas_id = [0x31], ex_question_text = [0x71],
            ex_orig_answer_text = Some [0x20, 0x61], ex_context = [0x61],
            ex_start_position = Some (- 1), ex_end_position = Some 0\<rparr>], []) \<and>
   py_split [0x61] = [[0x61]] \<and>
   py_split [0x20, 0x61] = [[0x61]] \<and>
   (- 1 :: int) \<le> int 0 \<and>
   take (length [[0x61 :: nat]]) (drop 0 [[0x61]]) = [[0x61 :: nat]] \<and>
   improve_answer_span [[0x61 :: nat]] [[0x61]] (- 1) 0 = Inr (- 1, - 1) \<and>
   (Inr (- 1, - 1) :: py_error + int \<times> int) \<noteq> Inr (int 0, int 0 + int (length [[0x61 :: nat]]) - 1)"
proof -
  have fmt: "get_format_text_and_word_offset [0x20, 0x61] = Inr ([[0x61]], [- 1, 0])"
    by (simp add: get_format_text_and_word_offset_def is_whitespace_def)
  have sa: "py_split [0x20, 0x61] = [[0x61]]" "py_split [0x61] = [[0x61]]"
    by (simp_all add: py_split_def py_isspace_def)
  have st: "py_strip [0x20, 0x61] = [0x61]"
    by (simp add: py_strip_def py_isspace_def)
  have pre: "preprocessing
     [\<lparr>art_paragraphs =
        [\<lparr>par_context = [0x20, 0x61],
          par_qas =
            [\<lparr>qa_question = [0x71], qa_id = [0x31],
               qa_answers = [\<lparr>ans_start = 0, ans_text = [0x20, 0x61]\<rparr>]\<rparr>]\<rparr>]\<rparr>]
     True =
     Inr ([\<lparr>ex_qas_id = [0x31], ex_question_text = [0x71],
            ex_orig_answer_text = Some [0x20, 0x61], ex_context = [0x61],
            ex_start_position = Some (- 1), ex_end_position = Some 0\<rparr>], [])"
    by (simp add: preprocessing_def fmt process_qa_def py_get_def py_slice_def slice_bound_def
        st sa py_find_def Let_def)
  have imp: "improve_answer_span [[0x61 :: nat]] [[0x61]] (- 1) 0 = Inr (- 1, - 1)"
    by (simp add: improve_answer_span_def py_get_def upto.simps)
  show ?thesis using pre sa imp by simp
qed


text \<open>
  C4, amended. Let \<open>answer_tokens\<close> be non-empty and \<open>start_position\<close> not negative. If
  \<open>answer_tokens\<close> occurs contiguously in \<open>context_tokens\<close> at index \<open>i\<close>, \<open>i\<close> is at or
  after \<open>start_position\<close>, and it is the leftmost such index, then
  \<open>improve_answer_span\<close> returns \<open>(i, i + len(answer_tokens) - 1)\<close>. Every candidate
  before \<open>i\<close> stays within bounds, because the occurrence at \<open>i\<close> ends inside the list.
  In particular the example of the docstring returns \<open>(6, 6)\<close>.
\<close>

theorem improve_answer_span_leftmost_match:
  assumes "answer_tokens \<noteq> []"
    and "0 \<le> start_position"
    and "start_position \<le> int i"
    and "take (length answer_tokens) (drop i context_tokens) = answer_tokens"
    and "\<forall>k. start_position \<le> int k \<and> k < i \<longrightarrow>
           take (length answer_tokens) (drop k context_tokens) \<noteq> answer_tokens"
  shows "improve_answer_span context_tokens answer_tokens start_position end_position =
           Inr (int i, int i + int (length answer_tokens) - 1) \<and>
         improve_answer_span
           [''the'', ''leader'', ''was'', ''john'', ''smith'', ''('', ''1895'', ''-'', ''1943'',
            '')'', ''.'']
           [''1895''] 5 5 = Inr (6, 6)"
proof
  define a where "a = nat start_position"
  have a: "start_position = int a" "a \<le> i" using assms(2,3) by (simp_all add: a_def)
  have "length (take (length answer_tokens) (drop i context_tokens)) = length answer_tokens"
    using assms(4) by simp
  then have bound: "i + length answer_tokens \<le> length context_tokens"
    using assms(1) by (cases answer_tokens) (auto simp: min_def split: if_splits)
  have none: "\<forall>k. a \<le> k \<and> k < i \<longrightarrow>
      take (length answer_tokens) (drop k context_tokens) \<noteq> answer_tokens"
    using assms(5) a by simp
  show "improve_answer_span context_tokens answer_tokens start_position end_position =
           Inr (int i, int i + int (length answer_tokens) - 1)"
    unfolding improve_answer_span_def a(1)
    using span_loop_first_match [OF assms(1) a(2) bound assms(4) none] .
next
  show "improve_answer_span
           [''the'', ''leader'', ''was'', ''john'', ''smith'', ''('', ''1895'', ''-'', ''1943'',
            '')'', ''.'']
           [''1895''] 5 5 = Inr (6, 6)"
    by (simp add: improve_answer_span_def py_get_def upto.simps)
qed

theorem improve_answer_span_leftmost_match_witness:
  "improve_answer_span [''a'', ''x'', ''a'', ''b'', ''a'', ''b''] [''a'', ''b''] 0 7 = Inr (2, 3)"
proof -
  have "\<forall>k. (0::int) \<le> int k \<and> k < 2 \<longrightarrow>
      take (length [''a'', ''b'']) (drop k [''a'', ''x'', ''a'', ''b'', ''a'', ''b'']) \<noteq> [''a'', ''b'']"
  proof (intro allI impI)
    fix k :: nat assume "(0::int) \<le> int k \<and> k < 2"
    then have "k = 0 \<or> k = 1" by auto
    then show "take (length [''a'', ''b'']) (drop k [''a'', ''x'', ''a'', ''b'', ''a'', ''b''])
        \<noteq> [''a'', ''b'']" by auto
  qed
  then show ?thesis
    using improve_answer_span_leftmost_match
      [of "[''a'', ''b'']" 0 2 "[''a'', ''x'', ''a'', ''b'', ''a'', ''b'']" 7]
    by simp
qed

text \<open>
  C5. Let \<open>answer_tokens\<close> be non-empty and \<open>s\<close> a position that Python can index from
  (not below \<open>-len(context_tokens)\<close>). If \<open>answer_tokens[0]\<close> occurs in \<open>context_tokens\<close>
  at no index \<open>\<ge> s\<close>, then \<open>improve_answer_span\<close> returns \<open>(s, e)\<close> unchanged.
\<close>

theorem improve_answer_span_no_first_token:
  assumes "answer_tokens \<noteq> []" and "- int (length context_tokens) \<le> s"
    and "\<forall>k<length context_tokens. s \<le> int k \<longrightarrow> context_tokens ! k \<noteq> answer_tokens ! 0"
  shows "improve_answer_span context_tokens answer_tokens s e = Inr (s, e)"
proof -
  have "\<exists>c. py_get context_tokens i = Inr c \<and> c \<noteq> answer_tokens ! 0"
    if "i \<in> set [s..int (length context_tokens) - 1]" for i
  proof -
    from that have r: "s \<le> i" "i < int (length context_tokens)" by auto
    show ?thesis
    proof (cases "i < 0")
      case True
      then have "s < 0" using r by simp
      then have all: "\<forall>k<length context_tokens. context_tokens ! k \<noteq> answer_tokens ! 0"
        using assms(3) by auto
      have "nat (int (length context_tokens) + i) < length context_tokens"
        using True r assms(2) by linarith
      then show ?thesis using True r assms(2) all by (simp add: py_get_def Let_def)
    next
      case False
      then have "nat i < length context_tokens" "s \<le> int (nat i)" using r by auto
      then show ?thesis using False assms(3) by (simp add: py_get_def Let_def)
    qed
  qed
  then show ?thesis unfolding improve_answer_span_def
    using span_loop_no_candidate [OF assms(1)] by blast
qed

theorem improve_answer_span_no_first_token_witness:
  "improve_answer_span [''b'', ''a'', ''c''] [''b'', ''a''] 1 2 = Inr (1, 2)"
proof -
  have "\<forall>k<length [''b'', ''a'', ''c'']. (1::int) \<le> int k \<longrightarrow>
          [''b'', ''a'', ''c''] ! k \<noteq> [''b'', ''a''] ! 0"
  proof (intro allI impI)
    fix k :: nat assume "k < length [''b'', ''a'', ''c'']" and "(1::int) \<le> int k"
    then have "k = 1 \<or> k = 2" by auto
    then show "[''b'', ''a'', ''c''] ! k \<noteq> [''b'', ''a''] ! 0" by auto
  qed
  then show ?thesis
    using improve_answer_span_no_first_token [of "[''b'', ''a'']" "[''b'', ''a'', ''c'']" 1 2]
    by simp
qed

text \<open>
  C10. \<open>improve_answer_span\<close> is not total. With \<open>context_tokens = ["a"]\<close>,
  \<open>answer_tokens = ["a", "b"]\<close> and both positions 0, the candidate \<open>i = 0\<close> matches the
  first answer token, \<open>i + len(answer_tokens) = 2 > 1 = len(context_tokens)\<close>, and the
  inner comparison reads \<open>context_tokens[1]\<close>: the call raises IndexError; it neither
  leaves the inner loop at a mismatch nor falls back to \<open>(0, 0)\<close>.
\<close>

theorem improve_answer_span_index_error:
  "improve_answer_span [''a''] [''a'', ''b''] 0 0 = Inl IndexError \<and>
   [''a''] ! 0 = [''a'', ''b''] ! 0 \<and>
   0 + length [''a'', ''b''] > length [''a'']"
  by (simp add: improve_answer_span_def py_get_def upto.simps)

section \<open>The example builder\<close>

lemma take_eq_prefix: "take (length sub) s = sub \<longleftrightarrow> prefix sub s"
  by (metis append_eq_conv_conj prefix_def)

lemma find_from_sublist: "find_from s sub k = - 1 \<longleftrightarrow> \<not> sublist sub s"
proof (induction s arbitrary: k)
  case Nil
  then show ?case by simp
next
  case (Cons c cs)
  show ?case
  proof (cases "take (length sub) (c # cs) = sub")
    case True
    then have "prefix sub (c # cs)" using take_eq_prefix by blast
    then have "sublist sub (c # cs)" by (simp add: sublist_Cons_right)
    with True show ?thesis by simp
  next
    case False
    then have "\<not> prefix sub (c # cs)" using take_eq_prefix by blast
    with False Cons show ?thesis by (simp add: sublist_Cons_right)
  qed
qed

lemma py_find_sublist: "py_find s sub = - 1 \<longleftrightarrow> \<not> sublist sub s"
  by (simp add: py_find_def find_from_sublist)

lemma returned_eq_iff:
  "returned a = returned b \<longleftrightarrow>
     (case a of Inl e \<Rightarrow> b = Inl e | Inr st \<Rightarrow> (\<exists>st'. b = Inr st' \<and> fst st' = fst st))"
  by (auto simp: returned_def split: sum.splits)

lemma qas_loop_log_indep:
  "fst st = fst st' \<Longrightarrow>
   returned (qas_loop t ofs tr qs st) = returned (qas_loop t ofs tr qs st')"
proof (induction qs arbitrary: st st')
  case Nil
  then show ?case by (simp add: returned_def)
next
  case (Cons q qs)
  show ?case
  proof (cases "process_qa t ofs tr q")
    case (Inl e)
    then show ?thesis by simp
  next
    case (Inr out)
    show ?thesis
    proof (cases out)
      case (Appended ex)
      have "fst (fst st @ [ex], snd st) = fst (fst st' @ [ex], snd st')" using Cons.prems by simp
      from Cons.IH [OF this] show ?thesis using Inr Appended by simp
    next
      case (Skipped x y)
      have "fst (fst st, snd st @ [(x, y)]) = fst (fst st', snd st' @ [(x, y)])"
        using Cons.prems by simp
      from Cons.IH [OF this] show ?thesis using Inr Skipped by simp
    qed
  qed
qed

lemma paragraphs_loop_log_indep:
  "fst st = fst st' \<Longrightarrow>
   returned (paragraphs_loop tr ps st) = returned (paragraphs_loop tr ps st')"
proof (induction ps arbitrary: st st')
  case Nil
  then show ?case by (simp add: returned_def)
next
  case (Cons p ps)
  show ?case
  proof (cases "get_format_text_and_word_offset (par_context p)")
    case (Inl e)
    then show ?thesis by simp
  next
    case (Inr tw)
    obtain t ofs where tw: "tw = (t, ofs)" by (cases tw)
    have q: "returned (qas_loop t ofs tr (par_qas p) st) = returned (qas_loop t ofs tr (par_qas p) st')"
      using qas_loop_log_indep [OF Cons.prems] .
    show ?thesis
    proof (cases "qas_loop t ofs tr (par_qas p) st")
      case (Inl e)
      with q have "qas_loop t ofs tr (par_qas p) st' = Inl e" by (simp add: returned_eq_iff)
      with Inl Inr tw show ?thesis by simp
    next
      case r: (Inr s1)
      with q obtain s2 where s2: "qas_loop t ofs tr (par_qas p) st' = Inr s2" "fst s2 = fst s1"
        by (auto simp: returned_eq_iff)
      from Cons.IH [of s1 s2] s2 r Inr tw show ?thesis by simp
    qed
  qed
qed

lemma data_loop_log_indep:
  "fst st = fst st' \<Longrightarrow>
   returned (data_loop tr as st) = returned (data_loop tr as st')"
proof (induction as arbitrary: st st')
  case Nil
  then show ?case by (simp add: returned_def)
next
  case (Cons a as)
  have q: "returned (paragraphs_loop tr (art_paragraphs a) st) =
           returned (paragraphs_loop tr (art_paragraphs a) st')"
    using paragraphs_loop_log_indep [OF Cons.prems] .
  show ?case
  proof (cases "paragraphs_loop tr (art_paragraphs a) st")
    case (Inl e)
    with q have "paragraphs_loop tr (art_paragraphs a) st' = Inl e" by (simp add: returned_eq_iff)
    with Inl show ?thesis by simp
  next
    case r: (Inr s1)
    with q obtain s2 where s2: "paragraphs_loop tr (art_paragraphs a) st' = Inr s2" "fst s2 = fst s1"
      by (auto simp: returned_eq_iff)
    from Cons.IH [of s1 s2] s2 r show ?thesis by simp
  qed
qed

lemma qas_loop_log_mono:
  "qas_loop t ofs tr qs st = Inr st' \<Longrightarrow> set (snd st) \<subseteq> set (snd st')"
proof (induction qs arbitrary: st)
  case Nil
  then show ?case by simp
next
  case (Cons q qs)
  then show ?case
    by (fastforce split: sum.splits qa_outcome.splits)
qed

lemma paragraphs_loop_log_mono:
  "paragraphs_loop tr ps st = Inr st' \<Longrightarrow> set (snd st) \<subseteq> set (snd st')"
proof (induction ps arbitrary: st)
  case Nil
  then show ?case by simp
next
  case (Cons p ps)
  then show ?case
    by (fastforce split: sum.splits prod.splits dest: qas_loop_log_mono)
qed

lemma data_loop_log_mono:
  "data_loop tr as st = Inr st' \<Longrightarrow> set (snd st) \<subseteq> set (snd st')"
proof (induction as arbitrary: st)
  case Nil
  then show ?case by simp
next
  case (Cons a as)
  then show ?case
    by (fastforce split: sum.splits dest: paragraphs_loop_log_mono)
qed

lemma qas_loop_append:
  "qas_loop t ofs tr (qs1 @ qs2) st =
     (case qas_loop t ofs tr qs1 st of Inl e \<Rightarrow> Inl e | Inr st' \<Rightarrow> qas_loop t ofs tr qs2 st')"
  by (induction qs1 arbitrary: st) (auto split: sum.splits qa_outcome.splits)

lemma paragraphs_loop_append:
  "paragraphs_loop tr (ps1 @ ps2) st =
     (case paragraphs_loop tr ps1 st of Inl e \<Rightarrow> Inl e | Inr st' \<Rightarrow> paragraphs_loop tr ps2 st')"
  by (induction ps1 arbitrary: st) (auto split: sum.splits prod.splits)

lemma data_loop_append:
  "data_loop tr (as1 @ as2) st =
     (case data_loop tr as1 st of Inl e \<Rightarrow> Inl e | Inr st' \<Rightarrow> data_loop tr as2 st')"
  by (induction as1 arbitrary: st) (auto split: sum.splits)


lemma process_qa_mismatch:
  assumes "qa_answers q = a # others"
    and "py_get word_offset (ans_start a) = Inr start_position"
    and "py_get word_offset (ans_start a + int (length (ans_text a)) - 1) = Inr end_position"
    and "actual_text = py_join [0x20] (py_slice context_tokens start_position (end_position + 1))"
    and "cleaned_answer_text = py_join [0x20] (py_split (py_strip (ans_text a)))"
    and "\<not> sublist cleaned_answer_text actual_text"
  shows "process_qa context_tokens word_offset True q = Inr (Skipped actual_text cleaned_answer_text)"
proof -
  have "py_get (qa_answers q) 0 = Inr a" using assms(1) by (simp add: py_get_def)
  moreover have "py_find actual_text cleaned_answer_text = - 1"
    using assms(6) by (simp add: py_find_sublist)
  ultimately show ?thesis using assms(2-5) by (simp add: process_qa_def Let_def)
qed

lemma qas_loop_skip:
  assumes "process_qa t ofs tr q = Inr (Skipped x y)"
  shows "returned (qas_loop t ofs tr (qs1 @ q # qs2) st) = returned (qas_loop t ofs tr (qs1 @ qs2) st) \<and>
         (\<forall>st'. qas_loop t ofs tr (qs1 @ q # qs2) st = Inr st' \<longrightarrow> (x, y) \<in> set (snd st'))"
proof (cases "qas_loop t ofs tr qs1 st")
  case (Inl e)
  then show ?thesis by (simp add: qas_loop_append)
next
  case (Inr s1)
  have a: "qas_loop t ofs tr (qs1 @ q # qs2) st = qas_loop t ofs tr qs2 (fst s1, snd s1 @ [(x, y)])"
    using Inr assms by (simp add: qas_loop_append)
  have b: "qas_loop t ofs tr (qs1 @ qs2) st = qas_loop t ofs tr qs2 s1"
    using Inr by (simp add: qas_loop_append)
  have "returned (qas_loop t ofs tr qs2 (fst s1, snd s1 @ [(x, y)])) = returned (qas_loop t ofs tr qs2 s1)"
    by (rule qas_loop_log_indep) simp
  moreover have "(x, y) \<in> set (snd st')" if "qas_loop t ofs tr qs2 (fst s1, snd s1 @ [(x, y)]) = Inr st'" for st'
    using qas_loop_log_mono [OF that] by auto
  ultimately show ?thesis using a b by simp
qed

lemma paragraphs_loop_cont:
  assumes "returned r = returned r'"
    and "\<forall>st'. r = Inr st' \<longrightarrow> w \<in> set (snd st')"
  shows "returned (case r of Inl e \<Rightarrow> Inl e | Inr s \<Rightarrow> paragraphs_loop tr ps s) =
         returned (case r' of Inl e \<Rightarrow> Inl e | Inr s \<Rightarrow> paragraphs_loop tr ps s) \<and>
         (\<forall>st'. (case r of Inl e \<Rightarrow> Inl e | Inr s \<Rightarrow> paragraphs_loop tr ps s) = Inr st' \<longrightarrow>
            w \<in> set (snd st'))"
proof (cases r)
  case (Inl e)
  with assms(1) have "r' = Inl e" by (simp add: returned_eq_iff)
  with Inl show ?thesis by simp
next
  case (Inr s1)
  with assms(1) obtain s2 where s2: "r' = Inr s2" "fst s2 = fst s1" by (auto simp: returned_eq_iff)
  have "returned (paragraphs_loop tr ps s1) = returned (paragraphs_loop tr ps s2)"
    using paragraphs_loop_log_indep [of s1 s2] s2 by simp
  moreover have "w \<in> set (snd st')" if "paragraphs_loop tr ps s1 = Inr st'" for st'
    using paragraphs_loop_log_mono [OF that] assms(2) Inr by auto
  ultimately show ?thesis using Inr s2 by simp
qed

lemma data_loop_cont:
  assumes "returned r = returned r'"
    and "\<forall>st'. r = Inr st' \<longrightarrow> w \<in> set (snd st')"
  shows "returned (case r of Inl e \<Rightarrow> Inl e | Inr s \<Rightarrow> data_loop tr as s) =
         returned (case r' of Inl e \<Rightarrow> Inl e | Inr s \<Rightarrow> data_loop tr as s) \<and>
         (\<forall>st'. (case r of Inl e \<Rightarrow> Inl e | Inr s \<Rightarrow> data_loop tr as s) = Inr st' \<longrightarrow>
            w \<in> set (snd st'))"
proof (cases r)
  case (Inl e)
  with assms(1) have "r' = Inl e" by (simp add: returned_eq_iff)
  with Inl show ?thesis by simp
next
  case (Inr s1)
  with assms(1) obtain s2 where s2: "r' = Inr s2" "fst s2 = fst s1" by (auto simp: returned_eq_iff)
  have "returned (data_loop tr as s1) = returned (data_loop tr as s2)"
    using data_loop_log_indep [of s1 s2] s2 by simp
  moreover have "w \<in> set (snd st')" if "data_loop tr as s1 = Inr st'" for st'
    using data_loop_log_mono [OF that] assms(2) Inr by auto
  ultimately show ?thesis using Inr s2 by simp
qed

lemma paragraphs_loop_skip:
  assumes "get_format_text_and_word_offset (par_context p) = Inr (t, ofs)"
    and "process_qa t ofs tr q = Inr (Skipped x y)"
    and "par_qas p = qs1 @ q # qs2"
  shows "returned (paragraphs_loop tr (ps1 @ p # ps2) st) =
         returned (paragraphs_loop tr (ps1 @ p\<lparr>par_qas := qs1 @ qs2\<rparr> # ps2) st) \<and>
         (\<forall>st'. paragraphs_loop tr (ps1 @ p # ps2) st = Inr st' \<longrightarrow> (x, y) \<in> set (snd st'))"
proof (cases "paragraphs_loop tr ps1 st")
  case (Inl e)
  then show ?thesis by (simp add: paragraphs_loop_append)
next
  case (Inr s1)
  let ?r = "qas_loop t ofs tr (qs1 @ q # qs2) s1"
  let ?r' = "qas_loop t ofs tr (qs1 @ qs2) s1"
  have a: "paragraphs_loop tr (ps1 @ p # ps2) st =
           (case ?r of Inl e \<Rightarrow> Inl e | Inr s \<Rightarrow> paragraphs_loop tr ps2 s)"
    using Inr assms(1,3) by (simp add: paragraphs_loop_append)
  have b: "paragraphs_loop tr (ps1 @ p\<lparr>par_qas := qs1 @ qs2\<rparr> # ps2) st =
           (case ?r' of Inl e \<Rightarrow> Inl e | Inr s \<Rightarrow> paragraphs_loop tr ps2 s)"
    using Inr assms(1) by (simp add: paragraphs_loop_append)
  have q: "returned ?r = returned ?r'" "\<forall>st'. ?r = Inr st' \<longrightarrow> (x, y) \<in> set (snd st')"
    using qas_loop_skip [OF assms(2), of qs1 qs2 s1] by simp_all
  show ?thesis unfolding a b using paragraphs_loop_cont [OF q] .
qed

lemma data_loop_skip:
  assumes "get_format_text_and_word_offset (par_context p) = Inr (t, ofs)"
    and "process_qa t ofs tr q = Inr (Skipped x y)"
    and "par_qas p = qs1 @ q # qs2"
    and "art_paragraphs a = ps1 @ p # ps2"
  shows "returned (data_loop tr (as1 @ a # as2) st) =
         returned (data_loop tr
           (as1 @ a\<lparr>art_paragraphs := ps1 @ p\<lparr>par_qas := qs1 @ qs2\<rparr> # ps2\<rparr> # as2) st) \<and>
         (\<forall>st'. data_loop tr (as1 @ a # as2) st = Inr st' \<longrightarrow> (x, y) \<in> set (snd st'))"
proof (cases "data_loop tr as1 st")
  case (Inl e)
  then show ?thesis by (simp add: data_loop_append)
next
  case (Inr s1)
  let ?r = "paragraphs_loop tr (ps1 @ p # ps2) s1"
  let ?r' = "paragraphs_loop tr (ps1 @ p\<lparr>par_qas := qs1 @ qs2\<rparr> # ps2) s1"
  have a: "data_loop tr (as1 @ a # as2) st =
           (case ?r of Inl e \<Rightarrow> Inl e | Inr s \<Rightarrow> data_loop tr as2 s)"
    using Inr assms(4) by (simp add: data_loop_append)
  have b: "data_loop tr
           (as1 @ a\<lparr>art_paragraphs := ps1 @ p\<lparr>par_qas := qs1 @ qs2\<rparr> # ps2\<rparr> # as2) st =
           (case ?r' of Inl e \<Rightarrow> Inl e | Inr s \<Rightarrow> data_loop tr as2 s)"
    using Inr by (simp add: data_loop_append)
  have q: "returned ?r = returned ?r'" "\<forall>st'. ?r = Inr st' \<longrightarrow> (x, y) \<in> set (snd st')"
    using paragraphs_loop_skip [OF assms(1-3), of ps1 ps2 s1] by simp_all
  show ?thesis unfolding a b using data_loop_cont [OF q] .
qed

text \<open>
  C7. In training mode, take a question-answer pair \<open>q\<close> of some paragraph whose word
  positions can be read off \<open>word_offset\<close> and whose reconstructed span text
  \<open>" ".join(context_tokens[start_position:end_position + 1])\<close> does not contain the
  whitespace-normalised answer text as a substring. Then \<open>preprocessing\<close> behaves on the
  data exactly as on the data without \<open>q\<close>: it returns the same examples, or raises
  the same exception (one that \<open>q\<close> does not cause), so the example of \<open>q\<close> is omitted
  and the scan continues over all remaining pairs; and whenever it returns, the warning
  with the two texts has been logged.
\<close>

theorem preprocessing_drops_mismatch:
  assumes "data = as1 @ a # as2"
    and "art_paragraphs a = ps1 @ p # ps2"
    and "par_qas p = qs1 @ q # qs2"
    and "get_format_text_and_word_offset (par_context p) = Inr (context_tokens, word_offset)"
    and "qa_answers q = ans # others"
    and "py_get word_offset (ans_start ans) = Inr start_position"
    and "py_get word_offset (ans_start ans + int (length (ans_text ans)) - 1) =
           Inr end_position"
    and "actual_text = py_join [0x20] (py_slice context_tokens start_position (end_position + 1))"
    and "cleaned_answer_text = py_join [0x20] (py_split (py_strip (ans_text ans)))"
    and "\<not> sublist cleaned_answer_text actual_text"
  shows "returned (preprocessing data True) =
           returned (preprocessing
             (as1 @ a\<lparr>art_paragraphs := ps1 @ p\<lparr>par_qas := qs1 @ qs2\<rparr> # ps2\<rparr> # as2) True) \<and>
         (\<forall>examples log. preprocessing data True = Inr (examples, log) \<longrightarrow>
            (actual_text, cleaned_answer_text) \<in> set log)"
proof -
  have skip: "process_qa context_tokens word_offset True q =
      Inr (Skipped actual_text cleaned_answer_text)"
    using process_qa_mismatch [OF assms(5-10)] .
  show ?thesis unfolding preprocessing_def assms(1)
    using data_loop_skip [OF assms(4) skip assms(3) assms(2), of as1 as2 "([], [])"] by auto
qed


theorem preprocessing_drops_mismatch_witness:
  "returned (preprocessing
     [\<lparr>art_paragraphs =
        [\<lparr>par_context = [0x61, 0x20, 0x62],
          par_qas =
            [\<lparr>qa_question = [0x71], qa_id = [0x31],
               qa_answers = [\<lparr>ans_start = 0, ans_text = [0x78]\<rparr>]\<rparr>,
             \<lparr>qa_question = [0x72], qa_id = [0x32],
               qa_answers = [\<lparr>ans_start = 2, ans_text = [0x62]\<rparr>]\<rparr>]\<rparr>]\<rparr>] True) =
   Inr [\<lparr>ex_qas_id = [0x32], ex_question_text = [0x72], ex_orig_answer_text = Some [0x62],
         ex_context = [0x61, 0x20, 0x62], ex_start_position = Some 1,
         ex_end_position = Some 1\<rparr>]"
proof -
  let ?bad = "\<lparr>qa_question = [0x71], qa_id = [0x31],
               qa_answers = [\<lparr>ans_start = 0, ans_text = [0x78]\<rparr>]\<rparr>"
  let ?good = "\<lparr>qa_question = [0x72], qa_id = [0x32],
               qa_answers = [\<lparr>ans_start = 2, ans_text = [0x62]\<rparr>]\<rparr>"
  let ?p = "\<lparr>par_context = [0x61, 0x20, 0x62], par_qas = [?bad, ?good]\<rparr>"
  let ?a = "\<lparr>art_paragraphs = [?p]\<rparr>"
  have fmt: "get_format_text_and_word_offset (par_context ?p) = Inr ([[0x61], [0x62]], [0, 0, 1])"
    by (simp add: get_format_text_and_word_offset_def is_whitespace_def)
  have h1: "[?a] = [] @ ?a # []" by simp
  have h2: "art_paragraphs ?a = [] @ ?p # []" by simp
  have h3: "par_qas ?p = [] @ ?bad # [?good]" by simp
  have h5: "qa_answers ?bad = \<lparr>ans_start = 0, ans_text = [0x78]\<rparr> # []" by simp
  have h6: "py_get [0, 0, 1 :: int] (ans_start \<lparr>ans_start = 0, ans_text = [0x78]\<rparr>) = Inr 0"
    by (simp add: py_get_def)
  have h7: "py_get [0, 0, 1 :: int] (ans_start \<lparr>ans_start = 0, ans_text = [0x78]\<rparr> +
       int (length (ans_text \<lparr>ans_start = 0, ans_text = [0x78]\<rparr>)) - 1) = Inr 0"
    by (simp add: py_get_def)
  have h8: "[0x61] = py_join [0x20] (py_slice [[0x61], [0x62]] 0 (0 + 1))"
    by (simp add: py_slice_def slice_bound_def)
  have h9: "[0x78] = py_join [0x20] (py_split (py_strip (ans_text \<lparr>ans_start = 0, ans_text = [0x78]\<rparr>)))"
    by (simp add: py_split_def py_strip_def py_isspace_def)
  have h10: "\<not> sublist [0x78 :: nat] [0x61]" by (simp add: sublist_Cons_right)
  have "returned (preprocessing [?a] True) =
        returned (preprocessing ([] @ ?a\<lparr>art_paragraphs := [] @ ?p\<lparr>par_qas := [] @ [?good]\<rparr> # []\<rparr> # []) True)"
    using preprocessing_drops_mismatch [OF h1 h2 h3 fmt h5 h6 h7 h8 h9 h10] by blast
  also have "\<dots> = Inr [\<lparr>ex_qas_id = [0x32], ex_question_text = [0x72], ex_orig_answer_text = Some [0x62],
         ex_context = [0x61, 0x20, 0x62], ex_start_position = Some 1,
         ex_end_position = Some 1\<rparr>]"
    by (simp add: preprocessing_def returned_def fmt [simplified] process_qa_def py_get_def
        py_slice_def slice_bound_def py_split_def py_strip_def py_isspace_def py_find_def Let_def)
  finally show ?thesis .
qed

section \<open>Encoding without sliding\<close>

lemma py_slice_prefix: "0 \<le> h \<Longrightarrow> py_slice xs 0 h = take (nat h) xs"
  by (auto simp: py_slice_def slice_bound_def Let_def min_def)

lemma question_tokens_of_take:
  "0 \<le> max_query_length cfg \<Longrightarrow>
   question_tokens_of cfg ex = take (nat (max_query_length cfg)) (tokenizer cfg (ex_question_text ex))"
  by (simp add: question_tokens_of_def Let_def py_slice_prefix)

lemma no_sliding_record_input_ids:
  assumes "1 \<le> max_position_embeddings cfg"
    and "no_sliding_record cfg is_training ex = Inr r"
  shows "rec_input_ids r =
           take (nat (max_position_embeddings cfg - 1)) (question_ids_of cfg ex @ context_ids_of cfg ex)
             @ [SEP_IDX cfg]"
proof -
  have "0 \<le> max_position_embeddings cfg - 1" using assms(1) by simp
  then have "py_slice xs 0 (max_position_embeddings cfg - 1) =
      take (nat (max_position_embeddings cfg - 1)) xs" for xs :: "int list"
    by (rule py_slice_prefix)
  then show ?thesis using assms(2)
    by (auto simp: no_sliding_record_def Let_def split: sum.splits prod.splits if_splits)
qed

lemma no_sliding_record_qas_id:
  "no_sliding_record cfg is_training ex = Inr r \<Longrightarrow> rec_qas_id r = ex_qas_id ex"
  by (auto simp: no_sliding_record_def Let_def split: sum.splits prod.splits)

lemma no_sliding_record_test: "\<exists>r. no_sliding_record cfg False ex = Inr r"
  by (simp add: no_sliding_record_def aligned_span_def Let_def)

lemma no_sliding_loop_records:
  "no_sliding_loop cfg is_training exs st = Inr st' \<Longrightarrow>
   \<exists>recs. fst st' = fst st @ recs \<and>
     list_all2 (\<lambda>ex r. no_sliding_record cfg is_training ex = Inr r) exs recs"
proof (induction exs arbitrary: st)
  case Nil
  then show ?case by simp
next
  case (Cons ex exs)
  from Cons.prems obtain r where r: "no_sliding_record cfg is_training ex = Inr r"
    and loop: "no_sliding_loop cfg is_training exs
            (fst st @ [r], max (snd st) (int (length (rec_input_ids r)))) = Inr st'"
    by (auto split: sum.splits)
  from Cons.IH [OF loop] obtain recs where
    "fst st' = (fst st @ [r]) @ recs"
    "list_all2 (\<lambda>ex r. no_sliding_record cfg is_training ex = Inr r) exs recs" by auto
  then have "fst st' = fst st @ (r # recs) \<and>
     list_all2 (\<lambda>ex r. no_sliding_record cfg is_training ex = Inr r) (ex # exs) (r # recs)"
    using r by simp
  then show ?case by blast
qed

lemma no_sliding_loop_test: "\<exists>st'. no_sliding_loop cfg False exs st = Inr st'"
proof (induction exs arbitrary: st)
  case Nil
  then show ?case by simp
next
  case (Cons ex exs)
  obtain r where "no_sliding_record cfg False ex = Inr r" using no_sliding_record_test by blast
  then show ?case using Cons.IH by simp
qed

lemma no_sliding_loop_returns:
  "\<forall>ex\<in>set exs. \<exists>span. aligned_span cfg is_training ex = Inr span \<Longrightarrow>
   \<exists>st'. no_sliding_loop cfg is_training exs st = Inr st'"
proof (induction exs arbitrary: st)
  case Nil
  then show ?case by simp
next
  case (Cons ex exs)
  then obtain span where "aligned_span cfg is_training ex = Inr span" by auto
  then obtain r where "no_sliding_record cfg is_training ex = Inr r"
    by (cases span) (simp add: no_sliding_record_def Let_def)
  then show ?case using Cons by simp
qed

text \<open>
  C6. Let \<open>max_position_embeddings\<close> be at least 1 and \<open>max_query_length\<close> not negative,
  and let \<open>preprocessing\<close> return \<open>examples\<close>. Outside training
  \<open>data_process_without_sliding\<close> always returns, and in training it returns whenever the
  span aligner returns on every example. Whenever it returns, \<open>all_data\<close> holds exactly
  one record per example, in order; the \<open>input_ids\<close> of each are \<open>[CLS]\<close>, the ids of the
  question cut to \<open>max_query_length\<close> tokens, \<open>[SEP]\<close> and the ids of the whole context,
  cut to the first \<open>max_position_embeddings - 1\<close> ids, followed by one \<open>[SEP]\<close>; so
  their length is at most \<open>max_position_embeddings\<close> and their last element is the
  \<open>[SEP]\<close> id.
\<close>

theorem no_sliding_one_record_per_example:
  assumes "1 \<le> max_position_embeddings cfg"
    and "0 \<le> max_query_length cfg"
    and "preprocessing data is_training = Inr (examples, warnings)"
  shows "(\<not> is_training \<longrightarrow>
            (\<exists>result. data_process_without_sliding cfg data is_training = Inr result)) \<and>
         ((\<forall>ex\<in>set examples. \<exists>span. aligned_span cfg is_training ex = Inr span) \<longrightarrow>
            (\<exists>result. data_process_without_sliding cfg data is_training = Inr result)) \<and>
         (\<forall>all_data max_len.
            data_process_without_sliding cfg data is_training = Inr (all_data, max_len) \<longrightarrow>
            length all_data = length examples \<and>
            (\<forall>k<length examples.
               rec_qas_id (all_data ! k) = ex_qas_id (examples ! k) \<and>
               rec_input_ids (all_data ! k) =
                 take (nat (max_position_embeddings cfg - 1))
                   ([CLS_IDX cfg] @
                    map (vocab cfg)
                      (take (nat (max_query_length cfg))
                         (tokenizer cfg (ex_question_text (examples ! k)))) @
                    [SEP_IDX cfg] @
                    map (vocab cfg) (tokenizer cfg (ex_context (examples ! k)))) @
                 [SEP_IDX cfg] \<and>
               int (length (rec_input_ids (all_data ! k))) \<le> max_position_embeddings cfg \<and>
               last (rec_input_ids (all_data ! k)) = SEP_IDX cfg))"
proof (intro conjI allI impI)
  assume "\<not> is_training"
  then show "\<exists>result. data_process_without_sliding cfg data is_training = Inr result"
    using assms(3) no_sliding_loop_test [of cfg examples "([], 0)"]
    by (simp add: data_process_without_sliding_def)
next
  assume "\<forall>ex\<in>set examples. \<exists>span. aligned_span cfg is_training ex = Inr span"
  then show "\<exists>result. data_process_without_sliding cfg data is_training = Inr result"
    using assms(3) no_sliding_loop_returns [of examples cfg is_training "([], 0)"]
    by (simp add: data_process_without_sliding_def)
next
  fix all_data max_len
  assume run: "data_process_without_sliding cfg data is_training = Inr (all_data, max_len)"
  then have "no_sliding_loop cfg is_training examples ([], 0) = Inr (all_data, max_len)"
    using assms(3) by (simp add: data_process_without_sliding_def)
  from no_sliding_loop_records [OF this]
  have all2: "list_all2 (\<lambda>ex r. no_sliding_record cfg is_training ex = Inr r) examples all_data"
    by simp
  then show "length all_data = length examples" by (simp add: list_all2_lengthD)
  fix k assume k: "k < length examples"
  with all2 have rk: "no_sliding_record cfg is_training (examples ! k) = Inr (all_data ! k)"
    using list_all2_nthD [of "\<lambda>ex r. no_sliding_record cfg is_training ex = Inr r" examples all_data k]
    by simp
  have ids: "rec_input_ids (all_data ! k) =
      take (nat (max_position_embeddings cfg - 1))
        (question_ids_of cfg (examples ! k) @ context_ids_of cfg (examples ! k)) @ [SEP_IDX cfg]"
    using no_sliding_record_input_ids [OF assms(1) rk] .
  show "rec_qas_id (all_data ! k) = ex_qas_id (examples ! k)"
    using no_sliding_record_qas_id [OF rk] .
  show "rec_input_ids (all_data ! k) =
                 take (nat (max_position_embeddings cfg - 1))
                   ([CLS_IDX cfg] @
                    map (vocab cfg)
                      (take (nat (max_query_length cfg))
                         (tokenizer cfg (ex_question_text (examples ! k)))) @
                    [SEP_IDX cfg] @
                    map (vocab cfg) (tokenizer cfg (ex_context (examples ! k)))) @
                 [SEP_IDX cfg]"
    using ids question_tokens_of_take [OF assms(2), of "examples ! k"]
    by (simp add: question_ids_of_def context_ids_of_def)
  show "int (length (rec_input_ids (all_data ! k))) \<le> max_position_embeddings cfg"
    using ids assms(1) by simp
  show "last (rec_input_ids (all_data ! k)) = SEP_IDX cfg"
    using ids by simp
qed


theorem no_sliding_one_record_per_example_witness:
  "\<exists>all_data max_len.
     data_process_without_sliding
       \<lparr>tokenizer = py_split, vocab = (\<lambda>t. int (hd t)), CLS_IDX = 101, SEP_IDX = 102,
        max_sen_len = 8, max_position_embeddings = 6, doc_stride = 2, max_query_length = 1\<rparr>
       [\<lparr>art_paragraphs =
          [\<lparr>par_context = [0x61, 0x20, 0x62, 0x20, 0x63, 0x20, 0x64],
            par_qas = [\<lparr>qa_question = [0x71, 0x20, 0x72], qa_id = [0x31], qa_answers = []\<rparr>]\<rparr>]\<rparr>] False = Inr (all_data, max_len) \<and>
     length all_data = 1 \<and>
     rec_input_ids (all_data ! 0) = [101, 0x71, 102, 0x61, 0x62, 102]"
proof -
  let ?cfg = "\<lparr>tokenizer = py_split, vocab = (\<lambda>t. int (hd t)), CLS_IDX = 101, SEP_IDX = 102,
        max_sen_len = 8, max_position_embeddings = 6, doc_stride = 2, max_query_length = 1\<rparr>"
  let ?data = "[\<lparr>art_paragraphs =
          [\<lparr>par_context = [0x61, 0x20, 0x62, 0x20, 0x63, 0x20, 0x64],
            par_qas = [\<lparr>qa_question = [0x71, 0x20, 0x72], qa_id = [0x31], qa_answers = []\<rparr>]\<rparr>]\<rparr>]"
  let ?ex = "\<lparr>ex_qas_id = [0x31], ex_question_text = [0x71, 0x20, 0x72],
      ex_orig_answer_text = None, ex_context = [0x61, 0x20, 0x62, 0x20, 0x63, 0x20, 0x64],
      ex_start_position = None, ex_end_position = None\<rparr>"
  have pre: "preprocessing ?data False = Inr ([?ex], [])"
    by (simp add: preprocessing_def get_format_text_and_word_offset_def is_whitespace_def
        process_qa_def)
  have h1: "1 \<le> max_position_embeddings ?cfg" by simp
  have h2: "0 \<le> max_query_length ?cfg" by simp
  note inst = no_sliding_one_record_per_example [OF h1 h2 pre]
  from inst obtain result where "data_process_without_sliding ?cfg ?data False = Inr result"
    by blast
  then obtain all_data max_len where
    run: "data_process_without_sliding ?cfg ?data False = Inr (all_data, max_len)"
    by (cases result) auto
  with inst have "length all_data = length [?ex]" and
    "\<forall>k<length [?ex]. rec_input_ids (all_data ! k) =
        take (nat (max_position_embeddings ?cfg - 1))
          ([CLS_IDX ?cfg] @
           map (vocab ?cfg)
             (take (nat (max_query_length ?cfg)) (tokenizer ?cfg (ex_question_text ([?ex] ! k)))) @
           [SEP_IDX ?cfg] @ map (vocab ?cfg) (tokenizer ?cfg (ex_context ([?ex] ! k)))) @
        [SEP_IDX ?cfg]"
    by blast+
  then have "length all_data = 1 \<and>
     rec_input_ids (all_data ! 0) = [101, 0x71, 102, 0x61, 0x62, 102]"
    by (simp add: py_split_def py_isspace_def)
  with run show ?thesis by blast
qed

section \<open>Encoding with sliding\<close>

lemma sliding_loop_windows:
  assumes "0 < doc_stride cfg"
  shows "sliding_loop cfg tr q c sp ep atxt qid s e acc =
     Some (acc @ map (\<lambda>k. window_record cfg tr q c sp ep atxt qid
                          (s + int k * doc_stride cfg) (e + int k * doc_stride cfg))
                    [0..<Suc (nat (- ((e - int (length c)) div doc_stride cfg)))])"
proof (induction "nat (- ((e - int (length c)) div doc_stride cfg))" arbitrary: s e acc)
  case 0
  then have "0 \<le> (e - int (length c)) div doc_stride cfg" by simp
  then have "int (length c) \<le> e" using assms by (simp add: pos_imp_zdiv_nonneg_iff)
  then show ?case using 0 by (subst sliding_loop.simps) simp
next
  case (Suc m)
  let ?D = "doc_stride cfg"
  let ?w = "window_record cfg tr q c sp ep atxt qid"
  from Suc.hyps(2) have neg: "(e - int (length c)) div ?D < 0" by linarith
  then have lt: "e < int (length c)" using assms by (simp add: neg_imp_zdiv_neg_iff div_neg_pos_less0 pos_imp_zdiv_neg_iff)
  have shift: "(e + ?D - int (length c)) div ?D = (e - int (length c)) div ?D + 1"
  proof -
    have eq: "e + ?D - int (length c) = (e - int (length c)) + ?D" by arith
    have "((e - int (length c)) + ?D) div ?D = (e - int (length c)) div ?D + 1"
      using assms by (intro div_add_self2) simp
    then show ?thesis by (simp only: eq)
  qed
  have m: "m = nat (- ((e + ?D - int (length c)) div ?D))"
    using Suc.hyps(2) shift by linarith
  have step: "sliding_loop cfg tr q c sp ep atxt qid s e acc =
      sliding_loop cfg tr q c sp ep atxt qid (s + ?D) (e + ?D) (acc @ [?w s e])"
    using lt by (subst sliding_loop.simps) simp
  have "sliding_loop cfg tr q c sp ep atxt qid (s + ?D) (e + ?D) (acc @ [?w s e]) =
      Some ((acc @ [?w s e]) @ map (\<lambda>k. ?w (s + ?D + int k * ?D) (e + ?D + int k * ?D)) [0..<Suc m])"
    using Suc.hyps(1) [OF m, of "s + ?D" "acc @ [?w s e]"] m by simp
  also have "map (\<lambda>k. ?w (s + ?D + int k * ?D) (e + ?D + int k * ?D)) [0..<Suc m] =
      map (\<lambda>k. ?w (s + int k * ?D) (e + int k * ?D)) [Suc 0..<Suc (Suc m)]"
    by (simp only: map_Suc_upt [symmetric] map_map o_def) (simp add: algebra_simps)
  also have "(acc @ [?w s e]) @ map (\<lambda>k. ?w (s + int k * ?D) (e + int k * ?D)) [Suc 0..<Suc (Suc m)] =
      acc @ map (\<lambda>k. ?w (s + int k * ?D) (e + int k * ?D)) [0..<Suc (Suc m)]"
    by (simp add: upt_conv_Cons del: upt_Suc)
  finally show ?case using step Suc.hyps(2) by simp
qed


lemma ceiling_windows:
  assumes "0 < (D::int)"
  shows "nat \<lceil>real_of_int (L - W) / real_of_int D\<rceil> = nat (- ((W - L) div D))"
proof -
  have "\<lceil>real_of_int (L - W) / real_of_int D\<rceil> = - (- (L - W) div D)"
    by (rule ceiling_divide_eq_div)
  then show ?thesis by simp
qed

lemma last_window_reaches:
  assumes "0 < (D::int)"
  shows "L \<le> W + int (nat (- ((W - L) div D))) * D"
proof -
  have "D * ((W - L) div D) + (W - L) mod D = W - L" by simp
  moreover have "0 \<le> (W - L) mod D" using assms by simp
  ultimately have le: "D * ((W - L) div D) \<le> W - L" by linarith
  have "- ((W - L) div D) \<le> int (nat (- ((W - L) div D)))" by simp
  then have "(- ((W - L) div D)) * D \<le> int (nat (- ((W - L) div D))) * D"
    using assms by (intro mult_right_mono) simp_all
  with le show ?thesis by (simp add: algebra_simps)
qed

lemma windows_cover:
  assumes "0 < (D::int)" and "D \<le> W" and "0 \<le> p" and "p < L"
  shows "\<exists>k<Suc (nat (- ((W - L) div D))). int k * D \<le> p \<and> p < W + int k * D"
proof -
  let ?m = "nat (- ((W - L) div D))"
  have top: "p < W + int ?m * D" using last_window_reaches [OF assms(1), of L W] assms(4) by simp
  define k where "k = (LEAST k. p < W + int k * D)"
  have k1: "p < W + int k * D" unfolding k_def using top by (rule LeastI)
  have k2: "k \<le> ?m" unfolding k_def using top by (rule Least_le)
  have k3: "int k * D \<le> p"
  proof (cases k)
    case 0
    then show ?thesis using assms(3) by simp
  next
    case (Suc j)
    then have "j < k" by simp
    then have "\<not> p < W + int j * D" unfolding k_def by (rule not_less_Least)
    then have "W + int j * D \<le> p" by simp
    moreover have "int k * D = int j * D + D" using Suc by (simp add: algebra_simps)
    ultimately show ?thesis using assms(2) by linarith
  qed
  have "k < Suc ?m" using k2 by simp
  with k1 k3 show ?thesis by blast
qed

lemma sliding_loop_some_stride:
  assumes "sliding_loop cfg tr q c sp ep atxt qid s e acc = Some y"
  shows "0 < doc_stride cfg \<or> int (length c) \<le> e"
proof (rule sliding_loop.raw_induct
    [where P = "\<lambda>cfg tr q c sp ep atxt qid s e acc y. 0 < doc_stride cfg \<or> int (length c) \<le> e",
      OF _ assms])
  fix f :: "config \<Rightarrow> bool \<Rightarrow> int list \<Rightarrow> int list \<Rightarrow> int \<Rightarrow> int \<Rightarrow> pystr option \<Rightarrow> pystr \<Rightarrow>
      int \<Rightarrow> int \<Rightarrow> encoded_record list \<Rightarrow> encoded_record list option"
  fix cfg tr q c sp ep atxt qid s e acc y
  assume ih: "\<And>cfg tr q c sp ep atxt qid s e acc y.
      f cfg tr q c sp ep atxt qid s e acc = Some y \<Longrightarrow> 0 < doc_stride cfg \<or> int (length c) \<le> e"
  assume body: "(if int (length c) \<le> e
      then Some (acc @ [window_record cfg tr q c sp ep atxt qid s e])
      else f cfg tr q c sp ep atxt qid (s + doc_stride cfg) (e + doc_stride cfg)
            (acc @ [window_record cfg tr q c sp ep atxt qid s e])) = Some y"
  show "0 < doc_stride cfg \<or> int (length c) \<le> e"
  proof (cases "int (length c) \<le> e")
    case True
    then show ?thesis by simp
  next
    case False
    with body have "f cfg tr q c sp ep atxt qid (s + doc_stride cfg) (e + doc_stride cfg)
            (acc @ [window_record cfg tr q c sp ep atxt qid s e]) = Some y" by simp
    from ih [OF this] False show ?thesis by linarith
  qed
qed

lemma sliding_loop_diverges:
  "doc_stride cfg \<le> 0 \<Longrightarrow> e < int (length c) \<Longrightarrow>
   sliding_loop cfg tr q c sp ep atxt qid s e acc = None"
  using sliding_loop_some_stride [of cfg tr q c sp ep atxt qid s e acc]
  by (cases "sliding_loop cfg tr q c sp ep atxt qid s e acc") auto


text \<open>
  What the record of one window carries in training. When the span lies inside the
  window with its end strictly before \<open>e_idx\<close>, the positions are the shifted ones and
  the ids between them are the ids of the span. When the test of the code fails, the
  positions are \<open>(0, 0)\<close>. The case left open is \<open>end_position = e_idx\<close>.
\<close>

lemma py_slice_nat:
  "py_slice xs (int a) (int b) = take (b - a) (drop a xs)"
  by (auto simp: py_slice_def slice_bound_def Let_def min_def nat_diff_distrib' not_le
      intro: take_all_iff[THEN iffD2] )


lemma window_slice_nat:
  assumes "a \<le> b" and "b \<le> d" and "d < f" and "d < length c"
  shows "take (Suc d - b) (drop (b - a + length q) (q @ take (f - a) (drop a c) @ [sep])) =
         take (Suc d - b) (drop b c)"
proof -
  define w where "w = take (f - a) (drop a c)"
  have lw: "length w = min (f - a) (length c - a)" by (simp add: w_def)
  have b1: "Suc d - a \<le> length w" using assms lw by (simp add: min_def) arith
  have b2: "b - a \<le> length w" using assms b1 by arith
  have b3: "Suc d - b \<le> length w - (b - a)" using assms b1 by arith
  have "drop (b - a + length q) (q @ w @ [sep]) = drop (b - a) w @ [sep]"
    using b2 by simp
  then have "take (Suc d - b) (drop (b - a + length q) (q @ w @ [sep])) =
      take (Suc d - b) (drop (b - a) w)" using b3 by simp
  also have "drop (b - a) w = take (f - b) (drop b c)"
    using assms by (simp add: w_def drop_take)
  also have "take (Suc d - b) (take (f - b) (drop b c)) = take (Suc d - b) (drop b c)"
    using assms by (simp add: min_def)
  finally show ?thesis by (simp add: w_def)
qed

lemma window_record_inside:
  assumes "0 \<le> s" and "s \<le> sp" and "sp \<le> ep" and "ep < e" and "ep < int (length c)"
  shows "rec_start_position (window_record cfg True q c sp ep atxt qid s e) =
           sp - s + int (length q) \<and>
         rec_end_position (window_record cfg True q c sp ep atxt qid s e) =
           ep - s + int (length q) \<and>
         py_slice (rec_input_ids (window_record cfg True q c sp ep atxt qid s e))
           (sp - s + int (length q)) (ep - s + int (length q) + 1) =
           py_slice c sp (ep + 1)"
proof -
  obtain a b d f where n: "s = int a" "sp = int b" "ep = int d" "e = int f"
    using assms by (metis nonneg_int_cases order_trans less_imp_le)
  have ord: "a \<le> b" "b \<le> d" "d < f" "d < length c" using assms n by simp_all
  have i1: "sp - s + int (length q) = int (b - a + length q)" using n ord by simp
  have i2: "ep - s + int (length q) + 1 = int (Suc d - a + length q)" using n ord by simp
  have i3: "ep + 1 = int (Suc d)" using n by simp
  have d1: "Suc d - a + length q - (b - a + length q) = Suc d - b" using ord by simp
  have "py_slice (q @ py_slice c s e @ [SEP_IDX cfg]) (sp - s + int (length q))
          (ep - s + int (length q) + 1) = py_slice c sp (ep + 1)"
    unfolding i1 i2 i3 unfolding n py_slice_nat d1
    using window_slice_nat [OF ord] by simp
  then show ?thesis using assms by (simp add: window_record_def Let_def)
qed

lemma window_record_outside:
  "\<not> (s \<le> sp \<and> ep \<le> e) \<Longrightarrow>
   rec_start_position (window_record cfg True q c sp ep atxt qid s e) = 0 \<and>
   rec_end_position (window_record cfg True q c sp ep atxt qid s e) = 0"
  by (auto simp: window_record_def Let_def)

text \<open>
  C1 on the code. The context has six tokens, the question one, \<open>max_sen_len = 8\<close> and
  \<open>doc_stride = 2\<close>, so \<open>rest_len = 4\<close> and the windows are \<open>[0, 4)\<close> and \<open>[2, 6)\<close>. The
  answer \<open>"d e"\<close> is the span \<open>(3, 4)\<close>, which lies inside \<open>[2, 6)\<close> only. The record
  of \<open>[2, 6)\<close> carries \<open>(4, 5)\<close>, the answer tokens. The record of \<open>[0, 4)\<close> does not
  carry \<open>(0, 0)\<close>: the test \<open>end_position <= e_idx\<close> accepts \<open>4 <= 4\<close>, and the record
  carries \<open>(6, 7)\<close>, where position 7 holds the closing \<open>[SEP]\<close>.
\<close>

theorem sliding_window_end_bound_code:
  "data_process_with_sliding
     \<lparr>tokenizer = py_split, vocab = (\<lambda>t. int (hd t)), CLS_IDX = 1, SEP_IDX = 2,
        max_sen_len = 8, max_position_embeddings = 512, doc_stride = 2,
        max_query_length = 64\<rparr>
     [\<lparr>art_paragraphs =
        [\<lparr>par_context = [0x61, 0x20, 0x62, 0x20, 0x63, 0x20, 0x64, 0x20, 0x65, 0x20, 0x66],
          par_qas =
            [\<lparr>qa_question = [0x71], qa_id = [0x31],
               qa_answers = [\<lparr>ans_start = 6, ans_text = [0x64, 0x20, 0x65]\<rparr>]\<rparr>]\<rparr>]\<rparr>]
     True =
   Some (Inr
     ([\<lparr>rec_input_ids = [1, 0x71, 2, 0x61, 0x62, 0x63, 0x64, 2],
        rec_seg = [0, 0, 0, 1, 1, 1, 1, 1],
        rec_start_position = 6, rec_end_position = 7,
        rec_answer_text = Some [0x64, 0x20, 0x65], rec_qas_id = [0x31]\<rparr>,
       \<lparr>rec_input_ids = [1, 0x71, 2, 0x63, 0x64, 0x65, 0x66, 2],
        rec_seg = [0, 0, 0, 1, 1, 1, 1, 1],
        rec_start_position = 4, rec_end_position = 5,
        rec_answer_text = Some [0x64, 0x20, 0x65], rec_qas_id = [0x31]\<rparr>],
      8))"
proof -
  let ?ctx = "[0x61, 0x20, 0x62, 0x20, 0x63, 0x20, 0x64, 0x20, 0x65, 0x20, 0x66] :: pystr"
  have fmt: "get_format_text_and_word_offset ?ctx =
      Inr ([[0x61], [0x62], [0x63], [0x64], [0x65], [0x66]], [0, 0, 1, 1, 2, 2, 3, 3, 4, 4, 5])"
    by (simp add: get_format_text_and_word_offset_def is_whitespace_def)
  have sp: "py_split ?ctx = [[0x61], [0x62], [0x63], [0x64], [0x65], [0x66]]"
    by (simp add: py_split_def py_isspace_def)
  have sa: "py_split [0x64, 0x20, 0x65] = [[0x64], [0x65]]"
    by (simp add: py_split_def py_isspace_def)
  have sq: "py_split [0x71] = [[0x71]]"
    by (simp add: py_split_def py_isspace_def)
  have imp: "improve_answer_span [[0x61], [0x62], [0x63], [0x64], [0x65], [0x66 :: nat]]
      [[0x64], [0x65]] 3 4 = Inr (3, 4)"
    by (simp add: improve_answer_span_def py_get_def upto.simps)
  have rep: "replicate 5 (1::int) = [1, 1, 1, 1, 1]" by (simp add: numeral_eq_Suc)
  have pre: "preprocessing
     [\<lparr>art_paragraphs =
        [\<lparr>par_context = ?ctx,
          par_qas =
            [\<lparr>qa_question = [0x71], qa_id = [0x31],
               qa_answers = [\<lparr>ans_start = 6, ans_text = [0x64, 0x20, 0x65]\<rparr>]\<rparr>]\<rparr>]\<rparr>]
     True =
     Inr ([\<lparr>ex_qas_id = [0x31], ex_question_text = [0x71],
            ex_orig_answer_text = Some [0x64, 0x20, 0x65], ex_context = ?ctx,
            ex_start_position = Some 3, ex_end_position = Some 4\<rparr>], [])"
    by (simp add: preprocessing_def fmt process_qa_def py_get_def py_slice_def slice_bound_def
        py_strip_def sa py_isspace_def py_find_def Let_def)
  show ?thesis
    by (simp add: data_process_with_sliding_def pre sliding_example_def question_ids_of_def
        question_tokens_of_def context_ids_of_def aligned_span_def sp sa sq imp
        sliding_loop.simps window_record_def segment_ids_def py_slice_def slice_bound_def Let_def
        rep)
qed


text \<open>
  C2 as stated fails when \<open>doc_stride\<close> exceeds \<open>rest_len\<close>: with \<open>rest_len = 1\<close>,
  \<open>doc_stride = 2\<close> and a context of three ids the windows are \<open>[0, 1)\<close> and \<open>[2, 3)\<close>,
  and the id at index 1 is in no record.
\<close>

theorem sliding_window_cover_counterexample:
  "max_sen_len \<lparr>tokenizer = py_split, vocab = (\<lambda>t. int (hd t)), CLS_IDX = 1, SEP_IDX = 2,
        max_sen_len = 5, max_position_embeddings = 512, doc_stride = 2,
        max_query_length = 64\<rparr> - int (length (question_ids_of \<lparr>tokenizer = py_split, vocab = (\<lambda>t. int (hd t)), CLS_IDX = 1, SEP_IDX = 2,
        max_sen_len = 5, max_position_embeddings = 512, doc_stride = 2,
        max_query_length = 64\<rparr> \<lparr>ex_qas_id = [0x31], ex_question_text = [0x71], ex_orig_answer_text = None,
        ex_context = [0x61, 0x20, 0x62, 0x20, 0x63],
        ex_start_position = None, ex_end_position = None\<rparr>)) - 1 = 1 \<and>
   doc_stride \<lparr>tokenizer = py_split, vocab = (\<lambda>t. int (hd t)), CLS_IDX = 1, SEP_IDX = 2,
        max_sen_len = 5, max_position_embeddings = 512, doc_stride = 2,
        max_query_length = 64\<rparr> = 2 \<and>
   context_ids_of \<lparr>tokenizer = py_split, vocab = (\<lambda>t. int (hd t)), CLS_IDX = 1, SEP_IDX = 2,
        max_sen_len = 5, max_position_embeddings = 512, doc_stride = 2,
        max_query_length = 64\<rparr> \<lparr>ex_qas_id = [0x31], ex_question_text = [0x71], ex_orig_answer_text = None,
        ex_context = [0x61, 0x20, 0x62, 0x20, 0x63],
        ex_start_position = None, ex_end_position = None\<rparr> = [0x61, 0x62, 0x63] \<and>
   map_option (map_sum id (map rec_input_ids)) (sliding_example \<lparr>tokenizer = py_split, vocab = (\<lambda>t. int (hd t)), CLS_IDX = 1, SEP_IDX = 2,
        max_sen_len = 5, max_position_embeddings = 512, doc_stride = 2,
        max_query_length = 64\<rparr> False \<lparr>ex_qas_id = [0x31], ex_question_text = [0x71], ex_orig_answer_text = None,
        ex_context = [0x61, 0x20, 0x62, 0x20, 0x63],
        ex_start_position = None, ex_end_position = None\<rparr> []) =
     Some (Inr [[1, 0x71, 2, 0x61, 2], [1, 0x71, 2, 0x63, 2]])"
  by (simp add: sliding_loop.simps sliding_example_def question_ids_of_def question_tokens_of_def context_ids_of_def aligned_span_def window_record_def segment_ids_def py_slice_def slice_bound_def py_split_def py_isspace_def Let_def)

text \<open>
  C2, amended. Let the span aligner return, \<open>L\<close> be the number of context ids,
  \<open>W = rest_len\<close> and \<open>D = doc_stride\<close>. If \<open>L > W\<close> and \<open>D > 0\<close>, the example adds exactly
  \<open>ceil((L - W) / D) + 1\<close> records to \<open>all_data\<close>, the \<open>k\<close>-th for the window
  \<open>[k * D, W + k * D)\<close>; if moreover \<open>D \<le> W\<close>, these windows cover \<open>[0, L)\<close>. If \<open>L > W\<close>
  and \<open>D \<le> 0\<close>, the window loop never ends. If \<open>L \<le> W\<close>, exactly one record is added,
  holding the whole context.
\<close>

theorem sliding_window_count_and_cover:
  assumes "aligned_span cfg is_training ex = Inr (start_position, end_position)"
    and "question_ids = question_ids_of cfg ex"
    and "context_ids = context_ids_of cfg ex"
    and "L = int (length context_ids)"
    and "W = max_sen_len cfg - int (length question_ids) - 1"
    and "D = doc_stride cfg"
    and "answer_text = (if is_training then ex_orig_answer_text ex else None)"
    and "n = nat \<lceil>real_of_int (L - W) / real_of_int D\<rceil> + 1"
  shows "(L > W \<and> 0 < D \<longrightarrow>
            sliding_example cfg is_training ex all_data =
              Some (Inr (all_data @
                map (\<lambda>k. window_record cfg is_training question_ids context_ids
                            start_position end_position answer_text (ex_qas_id ex)
                            (int k * D) (W + int k * D))
                    [0..<n]))) \<and>
         (L > W \<and> 0 < D \<and> D \<le> W \<longrightarrow>
            (\<forall>p. 0 \<le> p \<and> p < L \<longrightarrow> (\<exists>k<n. int k * D \<le> p \<and> p < W + int k * D))) \<and>
         (L > W \<and> D \<le> 0 \<longrightarrow> sliding_example cfg is_training ex all_data = None) \<and>
         (L \<le> W \<longrightarrow>
            (\<exists>r. sliding_example cfg is_training ex all_data = Some (Inr (all_data @ [r])) \<and>
                 rec_input_ids r = question_ids @ context_ids @ [SEP_IDX cfg]))"
proof (intro conjI impI)
  assume a: "L > W \<and> 0 < D"
  then have n: "n = Suc (nat (- ((W - L) div D)))"
    using assms(8) ceiling_windows [of D L W] by simp
  have "sliding_loop cfg is_training question_ids context_ids start_position end_position
          answer_text (ex_qas_id ex) 0 W all_data =
        Some (all_data @
          map (\<lambda>k. window_record cfg is_training question_ids context_ids
                      start_position end_position answer_text (ex_qas_id ex)
                      (0 + int k * D) (W + int k * D))
              [0..<n])"
    unfolding n assms(4,6) using a assms(6) by (intro sliding_loop_windows) simp
  then show "sliding_example cfg is_training ex all_data =
              Some (Inr (all_data @
                map (\<lambda>k. window_record cfg is_training question_ids context_ids
                            start_position end_position answer_text (ex_qas_id ex)
                            (int k * D) (W + int k * D))
                    [0..<n]))"
    using a assms(1-7) by (simp add: sliding_example_def Let_def)
next
  assume a: "L > W \<and> 0 < D \<and> D \<le> W"
  then have n: "n = Suc (nat (- ((W - L) div D)))"
    using assms(8) ceiling_windows [of D L W] by simp
  show "\<forall>p. 0 \<le> p \<and> p < L \<longrightarrow> (\<exists>k<n. int k * D \<le> p \<and> p < W + int k * D)"
    unfolding n using a windows_cover [of D W _ L] by blast
next
  assume a: "L > W \<and> D \<le> 0"
  then have "sliding_loop cfg is_training question_ids context_ids start_position end_position
          answer_text (ex_qas_id ex) 0 W all_data = None"
    using assms(4,6) by (intro sliding_loop_diverges) simp_all
  then show "sliding_example cfg is_training ex all_data = None"
    using a assms(1-7) by (simp add: sliding_example_def Let_def)
next
  assume "L \<le> W"
  then show "\<exists>r. sliding_example cfg is_training ex all_data = Some (Inr (all_data @ [r])) \<and>
                 rec_input_ids r = question_ids @ context_ids @ [SEP_IDX cfg]"
    using assms(1-5) by (simp add: sliding_example_def Let_def)
qed

theorem sliding_window_count_and_cover_witness:
  "map_option (map_sum id (map rec_input_ids)) (sliding_example \<lparr>tokenizer = py_split, vocab = (\<lambda>t. int (hd t)), CLS_IDX = 1, SEP_IDX = 2,
        max_sen_len = 8, max_position_embeddings = 512, doc_stride = 2,
        max_query_length = 64\<rparr> False \<lparr>ex_qas_id = [0x31], ex_question_text = [0x71], ex_orig_answer_text = None,
        ex_context = [0x61, 0x20, 0x62, 0x20, 0x63, 0x20, 0x64, 0x20, 0x65, 0x20, 0x66, 0x20, 0x67],
        ex_start_position = None, ex_end_position = None\<rparr> []) =
     Some (Inr [[1, 0x71, 2, 0x61, 0x62, 0x63, 0x64, 2], [1, 0x71, 2, 0x63, 0x64, 0x65, 0x66, 2],
                [1, 0x71, 2, 0x65, 0x66, 0x67, 2]]) \<and>
   (\<exists>k<3. int k * 2 \<le> 5 \<and> (5::int) < 4 + int k * 2)"
proof -
  let ?cfg = "\<lparr>tokenizer = py_split, vocab = (\<lambda>t. int (hd t)), CLS_IDX = 1, SEP_IDX = 2,
        max_sen_len = 8, max_position_embeddings = 512, doc_stride = 2,
        max_query_length = 64\<rparr>"
  let ?ex = "\<lparr>ex_qas_id = [0x31], ex_question_text = [0x71], ex_orig_answer_text = None,
        ex_context = [0x61, 0x20, 0x62, 0x20, 0x63, 0x20, 0x64, 0x20, 0x65, 0x20, 0x66, 0x20, 0x67],
        ex_start_position = None, ex_end_position = None\<rparr>"
  have h1: "aligned_span ?cfg False ?ex = Inr (- 1, - 1)" by (simp add: aligned_span_def)
  have q: "question_ids_of ?cfg ?ex = [1, 0x71, 2]"
    by (simp add: question_ids_of_def question_tokens_of_def py_split_def py_isspace_def)
  have c: "context_ids_of ?cfg ?ex = [0x61, 0x62, 0x63, 0x64, 0x65, 0x66, 0x67]"
    by (simp add: context_ids_of_def py_split_def py_isspace_def)
  have h2: "[1, 0x71, 2] = question_ids_of ?cfg ?ex" using q by simp
  have h3: "[0x61, 0x62, 0x63, 0x64, 0x65, 0x66, 0x67] = context_ids_of ?cfg ?ex" using c by simp
  have h4: "(7::int) = int (length [0x61, 0x62, 0x63, 0x64, 0x65, 0x66, 0x67 :: int])" by simp
  have h5: "(4::int) = max_sen_len ?cfg - int (length [1, 0x71, 2 :: int]) - 1" by simp
  have h6: "(2::int) = doc_stride ?cfg" by simp
  have h7: "None = (if False then ex_orig_answer_text ?ex else None)" by simp
  have h8: "(3::nat) = nat \<lceil>real_of_int (7 - 4) / real_of_int 2\<rceil> + 1"
    by (simp add: ceiling_windows)
  note inst = sliding_window_count_and_cover [OF h1 h2 h3 h4 h5 h6 h7 h8, of "[]"]
  have "sliding_example ?cfg False ?ex [] =
      Some (Inr ([] @ map (\<lambda>k. window_record ?cfg False [1, 0x71, 2]
          [0x61, 0x62, 0x63, 0x64, 0x65, 0x66, 0x67] (- 1) (- 1) None (ex_qas_id ?ex)
          (int k * 2) (4 + int k * 2)) [0..<3]))"
    using inst by simp
  then have "map_option (map_sum id (map rec_input_ids)) (sliding_example ?cfg False ?ex []) =
     Some (Inr [[1, 0x71, 2, 0x61, 0x62, 0x63, 0x64, 2], [1, 0x71, 2, 0x63, 0x64, 0x65, 0x66, 2],
                [1, 0x71, 2, 0x65, 0x66, 0x67, 2]])"
    by (simp add: window_record_def py_slice_def slice_bound_def Let_def upt_conv_Cons)
  moreover have "\<exists>k<3. int k * 2 \<le> 5 \<and> (5::int) < 4 + int k * 2"
  proof -
    have "\<forall>p::int. 0 \<le> p \<and> p < 7 \<longrightarrow> (\<exists>k<3. int k * 2 \<le> p \<and> p < 4 + int k * 2)"
      using inst by simp
    moreover have "0 \<le> (5::int) \<and> (5::int) < 7" by simp
    ultimately show ?thesis by blast
  qed
  ultimately show ?thesis by blast
qed

text \<open>
  C3 as stated fails: nothing in the function tests \<open>rest_len\<close>. With \<open>max_sen_len = 2\<close>
  and a question of one token, \<open>rest_len = -2\<close>; the function raises nothing and emits two
  records, for \<open>context_ids[0:-2]\<close> and \<open>context_ids[5:3]\<close>.
\<close>

theorem sliding_nonpositive_rest_len_counterexample:
  "max_sen_len \<lparr>tokenizer = py_split, vocab = (\<lambda>t. int (hd t)), CLS_IDX = 1, SEP_IDX = 2,
        max_sen_len = 2, max_position_embeddings = 512, doc_stride = 5,
        max_query_length = 64\<rparr> - int (length (question_ids_of \<lparr>tokenizer = py_split, vocab = (\<lambda>t. int (hd t)), CLS_IDX = 1, SEP_IDX = 2,
        max_sen_len = 2, max_position_embeddings = 512, doc_stride = 5,
        max_query_length = 64\<rparr> \<lparr>ex_qas_id = [0x31], ex_question_text = [0x71], ex_orig_answer_text = None,
        ex_context = [0x61, 0x20, 0x62, 0x20, 0x63],
        ex_start_position = None, ex_end_position = None\<rparr>)) - 1 = - 2 \<and>
   map_option (map_sum id (map rec_input_ids)) (sliding_example \<lparr>tokenizer = py_split, vocab = (\<lambda>t. int (hd t)), CLS_IDX = 1, SEP_IDX = 2,
        max_sen_len = 2, max_position_embeddings = 512, doc_stride = 5,
        max_query_length = 64\<rparr> False \<lparr>ex_qas_id = [0x31], ex_question_text = [0x71], ex_orig_answer_text = None,
        ex_context = [0x61, 0x20, 0x62, 0x20, 0x63],
        ex_start_position = None, ex_end_position = None\<rparr> []) =
     Some (Inr [[1, 0x71, 2, 0x61, 2], [1, 0x71, 2, 2]])"
  by (simp add: sliding_loop.simps sliding_example_def question_ids_of_def question_tokens_of_def context_ids_of_def aligned_span_def window_record_def segment_ids_def py_slice_def slice_bound_def py_split_def py_isspace_def Let_def)

text \<open>
  C3, amended. When \<open>rest_len\<close> is zero or negative (and \<open>doc_stride\<close> is positive, and
  the span aligner returns), the example raises no error: it adds at least one record to
  \<open>all_data\<close>; when the context is longer than \<open>rest_len\<close> the first record is built
  from the degenerate window \<open>context_ids[0:rest_len]\<close>.
\<close>

theorem sliding_nonpositive_rest_len:
  assumes "aligned_span cfg is_training ex = Inr (start_position, end_position)"
    and "rest_len = max_sen_len cfg - int (length (question_ids_of cfg ex)) - 1"
    and "rest_len \<le> 0"
    and "0 < doc_stride cfg"
  shows "\<exists>records.
           sliding_example cfg is_training ex all_data = Some (Inr (all_data @ records)) \<and>
           records \<noteq> [] \<and>
           (int (length (context_ids_of cfg ex)) > rest_len \<longrightarrow>
              rec_input_ids (hd records) =
                question_ids_of cfg ex @ py_slice (context_ids_of cfg ex) 0 rest_len @
                [SEP_IDX cfg])"
proof (cases "int (length (context_ids_of cfg ex)) > rest_len")
  case True
  let ?w = "window_record cfg is_training (question_ids_of cfg ex) (context_ids_of cfg ex)
      start_position end_position (if is_training then ex_orig_answer_text ex else None)
      (ex_qas_id ex)"
  let ?m = "nat (- ((rest_len - int (length (context_ids_of cfg ex))) div doc_stride cfg))"
  let ?records = "map (\<lambda>k. ?w (0 + int k * doc_stride cfg) (rest_len + int k * doc_stride cfg))
      [0..<Suc ?m]"
  have "sliding_loop cfg is_training (question_ids_of cfg ex) (context_ids_of cfg ex)
      start_position end_position (if is_training then ex_orig_answer_text ex else None)
      (ex_qas_id ex) 0 rest_len all_data = Some (all_data @ ?records)"
    using assms(4) by (rule sliding_loop_windows)
  then have run: "sliding_example cfg is_training ex all_data = Some (Inr (all_data @ ?records))"
    using True assms(1,2) by (simp add: sliding_example_def Let_def)
  have "?records = ?w 0 rest_len #
      map (\<lambda>k. ?w (0 + int k * doc_stride cfg) (rest_len + int k * doc_stride cfg)) [Suc 0..<Suc ?m]"
    by (simp add: upt_conv_Cons del: upt_Suc)
  then have "?records \<noteq> [] \<and> rec_input_ids (hd ?records) =
                question_ids_of cfg ex @ py_slice (context_ids_of cfg ex) 0 rest_len @
                [SEP_IDX cfg]"
    by (simp add: window_record_def Let_def del: upt_Suc)
  with run show ?thesis by blast
next
  case False
  then show ?thesis using assms(1,2) by (simp add: sliding_example_def Let_def)
qed


theorem sliding_nonpositive_rest_len_witness:
  "\<exists>records. sliding_example \<lparr>tokenizer = py_split, vocab = (\<lambda>t. int (hd t)), CLS_IDX = 1, SEP_IDX = 2,
        max_sen_len = 2, max_position_embeddings = 512, doc_stride = 5,
        max_query_length = 64\<rparr> False \<lparr>ex_qas_id = [0x31], ex_question_text = [0x71], ex_orig_answer_text = None,
        ex_context = [0x61, 0x20, 0x62, 0x20, 0x63],
        ex_start_position = None, ex_end_position = None\<rparr> [] = Some (Inr records) \<and> records \<noteq> [] \<and>
     rec_input_ids (hd records) = [1, 0x71, 2, 0x61, 2]"
proof -
  let ?cfg = "\<lparr>tokenizer = py_split, vocab = (\<lambda>t. int (hd t)), CLS_IDX = 1, SEP_IDX = 2,
        max_sen_len = 2, max_position_embeddings = 512, doc_stride = 5,
        max_query_length = 64\<rparr>"
  let ?ex = "\<lparr>ex_qas_id = [0x31], ex_question_text = [0x71], ex_orig_answer_text = None,
        ex_context = [0x61, 0x20, 0x62, 0x20, 0x63],
        ex_start_position = None, ex_end_position = None\<rparr>"
  have h1: "aligned_span ?cfg False ?ex = Inr (- 1, - 1)" by (simp add: aligned_span_def)
  have q: "question_ids_of ?cfg ?ex = [1, 0x71, 2]"
    by (simp add: question_ids_of_def question_tokens_of_def py_split_def py_isspace_def)
  have c: "context_ids_of ?cfg ?ex = [0x61, 0x62, 0x63]"
    by (simp add: context_ids_of_def py_split_def py_isspace_def)
  have h2: "- 2 = max_sen_len ?cfg - int (length (question_ids_of ?cfg ?ex)) - 1"
    using q by simp
  have h3: "- 2 \<le> (0::int)" by simp
  have h4: "0 < doc_stride ?cfg" by simp
  from sliding_nonpositive_rest_len [OF h1 h2 h3 h4, of "[]"]
  show ?thesis unfolding q c by (simp add: py_slice_def slice_bound_def)
qed


end
